theory Spec2Isabelle
  imports Complex_Main "HOL-Library.AList"
begin

section \<open>Python values\<close>

text \<open>
  A Python \<^verbatim>\<open>float\<close> is modelled as an exact real number or the not-a-number value.
  Rounding, overflow and the infinities of IEEE arithmetic are outside the model.
  Arithmetic propagates \<open>NaN\<close>; every comparison with \<open>NaN\<close> is false, as in Python.
\<close>

datatype pyfloat = Fin real | NaN

datatype py_error =
  TypeError | ValueError | KeyError | ZeroDivisionError | IndexError | RuntimeError | FileNotFoundError

fun pf_lift1 :: "(real \<Rightarrow> real) \<Rightarrow> pyfloat \<Rightarrow> pyfloat" where
  "pf_lift1 f (Fin x) = Fin (f x)"
| "pf_lift1 f NaN = NaN"

fun pf_lift2 :: "(real \<Rightarrow> real \<Rightarrow> real) \<Rightarrow> pyfloat \<Rightarrow> pyfloat \<Rightarrow> pyfloat" where
  "pf_lift2 f (Fin x) (Fin y) = Fin (f x y)"
| "pf_lift2 f _ _ = NaN"

definition pf_add :: "pyfloat \<Rightarrow> pyfloat \<Rightarrow> pyfloat" where
  "pf_add = pf_lift2 (\<lambda>x y. x + y)"

definition pf_sub :: "pyfloat \<Rightarrow> pyfloat \<Rightarrow> pyfloat" where
  "pf_sub = pf_lift2 (\<lambda>x y. x - y)"

definition pf_mul :: "pyfloat \<Rightarrow> pyfloat \<Rightarrow> pyfloat" where
  "pf_mul = pf_lift2 (\<lambda>x y. x * y)"

definition pf_neg :: "pyfloat \<Rightarrow> pyfloat" where
  "pf_neg = pf_lift1 (\<lambda>x. - x)"

definition pf_abs :: "pyfloat \<Rightarrow> pyfloat" where
  "pf_abs = pf_lift1 (\<lambda>x. \<bar>x\<bar>)"

definition pf_exp :: "pyfloat \<Rightarrow> pyfloat" where
  "pf_exp = pf_lift1 exp"

definition pf_cos :: "pyfloat \<Rightarrow> pyfloat" where
  "pf_cos = pf_lift1 cos"

definition pf_sq :: "pyfloat \<Rightarrow> pyfloat" where
  "pf_sq = pf_lift1 (\<lambda>x. x\<^sup>2)"

text \<open>numpy's \<^verbatim>\<open>sqrt\<close> yields \<open>NaN\<close> on a negative argument.\<close>

fun pf_sqrt :: "pyfloat \<Rightarrow> pyfloat" where
  "pf_sqrt (Fin x) = (if x < 0 then NaN else Fin (sqrt x))"
| "pf_sqrt NaN = NaN"

text \<open>Python's \<^verbatim>\<open>x < y\<close> and \<^verbatim>\<open>x <= y\<close> on floats.\<close>

fun pf_lt :: "pyfloat \<Rightarrow> pyfloat \<Rightarrow> bool" where
  "pf_lt (Fin x) (Fin y) = (x < y)"
| "pf_lt _ _ = False"

fun pf_le :: "pyfloat \<Rightarrow> pyfloat \<Rightarrow> bool" where
  "pf_le (Fin x) (Fin y) = (x \<le> y)"
| "pf_le _ _ = False"

text \<open>Python's \<^verbatim>\<open>x / y\<close> on floats raises on a zero divisor.\<close>

definition py_truediv :: "pyfloat \<Rightarrow> pyfloat \<Rightarrow> py_error + pyfloat" where
  "py_truediv x y =
     (if y = Fin 0 then Inl ZeroDivisionError else Inr (pf_lift2 (\<lambda>a b. a / b) x y))"

section \<open>The Flower Index combiner (thomas_flower_interface.py)\<close>

text \<open>
  \<^verbatim>\<open>flower_index(E_flower, lambda_max)\<close>: the arguments are \<^verbatim>\<open>Optional[float]\<close>.
  The body runs inside \<^verbatim>\<open>try ... except Exception: return nan\<close>, so a raised division
  error becomes \<open>NaN\<close>.
\<close>

definition flower_index :: "pyfloat option \<Rightarrow> pyfloat option \<Rightarrow> pyfloat" where
  "flower_index E_flower lambda_max =
     (case (E_flower, lambda_max) of
        (Some E, Some L) \<Rightarrow>
          if pf_lt E (Fin 0) \<or> pf_lt L (Fin 0) then NaN
          else (case py_truediv (Fin 1) (pf_add (Fin 1) E) of
                  Inl _ \<Rightarrow> NaN
                | Inr q \<Rightarrow> pf_mul q (pf_exp (pf_neg L)))
      | _ \<Rightarrow> NaN)"

section \<open>Rounded arithmetic\<close>

text \<open>
  The arithmetic of the source is IEEE 754 double precision: the result of an operation is
  the exact result rounded to the nearest double, ties to the even significand. A double is
  modelled by the real number it denotes. \<open>round_double\<close> rounds a real to the grid of the
  doubles around it: the grid of spacing \<open>2 powr (k - 52)\<close> in the binade \<open>k\<close>, and the
  subnormal grid of spacing \<open>2 powr (- 1074)\<close> below \<open>2 powr (- 1022)\<close>. Overflow to infinity
  (above \<open>2 powr 1024\<close>) is outside the model.
\<close>

definition round_even :: "real \<Rightarrow> int" where
  "round_even r =
     (let f = \<lfloor>r\<rfloor>
      in if r - of_int f < 1 / 2 then f
         else if 1 / 2 < r - of_int f then f + 1
         else if even f then f else f + 1)"

definition binade :: "real \<Rightarrow> int" where
  "binade x = max \<lfloor>log 2 \<bar>x\<bar>\<rfloor> (- 1022)"

definition grid :: "int \<Rightarrow> real" where
  "grid k = 2 powr of_int (k - 52)"

definition on_grid :: "int \<Rightarrow> real \<Rightarrow> real" where
  "on_grid k x = of_int (round_even (x / grid k)) * grid k"

definition round_double :: "real \<Rightarrow> real" where
  "round_double x = (if x = 0 then 0 else on_grid (binade x) x)"

text \<open>
  The arithmetic a numeric function runs on, as an argument: the value of a decimal literal,
  the four operations, and the elementary functions. \<open>exact_arith\<close> is arithmetic over the
  reals. \<open>ieee_arith\<close> rounds every result; the sine and the logarithm come from the
  platform's mathematical library, which is no code of this repository and whose rounding
  is not specified, so they are arguments of it.
\<close>

record py_arith =
  f_num :: "real \<Rightarrow> real"
  f_add :: "real \<Rightarrow> real \<Rightarrow> real"
  f_sub :: "real \<Rightarrow> real \<Rightarrow> real"
  f_mul :: "real \<Rightarrow> real \<Rightarrow> real"
  f_div :: "real \<Rightarrow> real \<Rightarrow> real"
  f_sqrt :: "real \<Rightarrow> real"
  f_sin :: "real \<Rightarrow> real"
  f_log :: "real \<Rightarrow> real"

definition exact_arith :: py_arith where
  "exact_arith =
     \<lparr>f_num = (\<lambda>x. x),
      f_add = (\<lambda>x y. x + y), f_sub = (\<lambda>x y. x - y),
      f_mul = (\<lambda>x y. x * y), f_div = (\<lambda>x y. x / y),
      f_sqrt = sqrt, f_sin = sin, f_log = ln\<rparr>"

definition ieee_arith :: "(real \<Rightarrow> real) \<Rightarrow> (real \<Rightarrow> real) \<Rightarrow> py_arith" where
  "ieee_arith libm_sin libm_log =
     \<lparr>f_num = round_double,
      f_add = (\<lambda>x y. round_double (x + y)), f_sub = (\<lambda>x y. round_double (x - y)),
      f_mul = (\<lambda>x y. round_double (x * y)), f_div = (\<lambda>x y. round_double (x / y)),
      f_sqrt = (\<lambda>x. round_double (sqrt x)), f_sin = libm_sin, f_log = libm_log\<rparr>"

text \<open>
  What the zero-perturbation case needs of an arithmetic: \<open>x - x\<close>, \<open>0 * 0\<close>, \<open>0 + 0\<close> and
  \<open>sqrt 0\<close> are \<open>0\<close>, and \<open>1 + 0\<close> is \<open>1\<close>.
\<close>

definition zero_sane :: "py_arith \<Rightarrow> bool" where
  "zero_sane A \<longleftrightarrow>
     (\<forall>x. f_sub A x x = 0) \<and> f_mul A 0 0 = 0 \<and> f_add A 0 0 = 0 \<and> f_sqrt A 0 = 0
     \<and> f_add A 1 0 = 1"

section \<open>The Flower Index combiner in double precision\<close>

text \<open>
  Line 56 once more, with the rounding of each operation written out: the sum \<^verbatim>\<open>1.0 + E\<close>,
  the quotient, the exponential (\<^verbatim>\<open>math.exp\<close>, taken as correctly rounded) and the product.
  The guards are those of \<open>flower_index\<close>. \<^verbatim>\<open>math.exp\<close> raises only on overflow, which a
  non-positive argument excludes.
\<close>

definition fl_add :: "pyfloat \<Rightarrow> pyfloat \<Rightarrow> pyfloat" where
  "fl_add = pf_lift2 (\<lambda>x y. round_double (x + y))"

definition fl_mul :: "pyfloat \<Rightarrow> pyfloat \<Rightarrow> pyfloat" where
  "fl_mul = pf_lift2 (\<lambda>x y. round_double (x * y))"

definition fl_exp :: "pyfloat \<Rightarrow> pyfloat" where
  "fl_exp = pf_lift1 (\<lambda>x. round_double (exp x))"

definition fl_truediv :: "pyfloat \<Rightarrow> pyfloat \<Rightarrow> py_error + pyfloat" where
  "fl_truediv x y =
     (if y = Fin 0 then Inl ZeroDivisionError
      else Inr (pf_lift2 (\<lambda>a b. round_double (a / b)) x y))"

definition flower_index_ieee :: "pyfloat option \<Rightarrow> pyfloat option \<Rightarrow> pyfloat" where
  "flower_index_ieee E_flower lambda_max =
     (case (E_flower, lambda_max) of
        (Some E, Some L) \<Rightarrow>
          if pf_lt E (Fin 0) \<or> pf_lt L (Fin 0) then NaN
          else (case fl_truediv (Fin 1) (fl_add (Fin 1) E) of
                  Inl _ \<Rightarrow> NaN
                | Inr q \<Rightarrow> fl_mul q (fl_exp (pf_neg L)))
      | _ \<Rightarrow> NaN)"

section \<open>The analysis script (thomas-flower.py)\<close>

subsection \<open>The Thomas system\<close>

type_synonym vec3 = "real \<times> real \<times> real"

text \<open>\<^verbatim>\<open>thomas(t, state, b)\<close>: the right-hand side of the ODE, on the arithmetic \<open>A\<close>.\<close>

definition thomas :: "py_arith \<Rightarrow> real \<Rightarrow> vec3 \<Rightarrow> real \<Rightarrow> vec3" where
  "thomas A t state b =
     (case state of
        (x, y, z) \<Rightarrow>
          (f_sub A (f_sin A y) (f_mul A b x),
           f_sub A (f_sin A z) (f_mul A b y),
           f_sub A (f_sin A x) (f_mul A b z)))"

subsection \<open>The perturbation exponent estimator\<close>

text \<open>Python's \<^verbatim>\<open>int(x)\<close> on a float truncates towards zero.\<close>

definition py_trunc :: "real \<Rightarrow> int" where
  "py_trunc r = (if 0 \<le> r then \<lfloor>r\<rfloor> else \<lceil>r\<rceil>)"

text \<open>\<^verbatim>\<open>range(k)\<close>: empty for \<open>k \<le> 0\<close>.\<close>

definition py_range :: "int \<Rightarrow> nat list" where
  "py_range k = [0..<nat k]"

text \<open>
  The loop state of \<^verbatim>\<open>lyapunov_estimate\<close>: the two trajectories, the reference
  separation \<^verbatim>\<open>d0\<close>, the running sum \<^verbatim>\<open>d_sum\<close> and the event count \<^verbatim>\<open>n\<close>.
\<close>

type_synonym lyap_state = "vec3 \<times> vec3 \<times> real \<times> real \<times> nat"

text \<open>
  One iteration of the \<^verbatim>\<open>for\<close> loop (lines 51 to 59). \<^verbatim>\<open>v**2\<close> is the rounded product of
  \<open>v\<close> with itself. The quotient \<^verbatim>\<open>d/d0\<close> is numpy's; it is taken only where \<open>d > 0\<close>, and
  \<open>d0\<close> is then the positive separation of an earlier event or the initial one.
\<close>

fun lyap_step :: "py_arith \<Rightarrow> real \<Rightarrow> real \<Rightarrow> lyap_state \<Rightarrow> lyap_state" where
  "lyap_step A b dt ((x1, y1, z1), (x2, y2, z2), d0, d_sum, n) =
     (let dx1 = f_sub A (f_sin A y1) (f_mul A b x1);
          dy1 = f_sub A (f_sin A z1) (f_mul A b y1);
          dz1 = f_sub A (f_sin A x1) (f_mul A b z1);
          dx2 = f_sub A (f_sin A y2) (f_mul A b x2);
          dy2 = f_sub A (f_sin A z2) (f_mul A b y2);
          dz2 = f_sub A (f_sin A x2) (f_mul A b z2);
          x1' = f_add A x1 (f_mul A dx1 dt);
          y1' = f_add A y1 (f_mul A dy1 dt);
          z1' = f_add A z1 (f_mul A dz1 dt);
          x2' = f_add A x2 (f_mul A dx2 dt);
          y2' = f_add A y2 (f_mul A dy2 dt);
          z2' = f_add A z2 (f_mul A dz2 dt);
          d = f_sqrt A
                (f_add A
                   (f_add A (f_mul A (f_sub A x2' x1') (f_sub A x2' x1'))
                            (f_mul A (f_sub A y2' y1') (f_sub A y2' y1')))
                   (f_mul A (f_sub A z2' z1') (f_sub A z2' z1')))
      in if d > 0
         then ((x1', y1', z1'), (x2', y2', z2'), d, f_add A d_sum (f_log A (f_div A d d0)), n + 1)
         else ((x1', y1', z1'), (x2', y2', z2'), d0, d_sum, n))"

text \<open>The state before the loop (lines 44 to 49), for an initial perturbation \<open>eps\<close>.\<close>

definition lyap_init :: "py_arith \<Rightarrow> real \<Rightarrow> lyap_state" where
  "lyap_init A eps =
     (let x1 = 1; y1 = 1; z1 = 1;
          x2 = f_add A x1 eps; y2 = y1; z2 = z1;
          d0 = f_sqrt A
                 (f_add A
                    (f_add A (f_mul A (f_sub A x2 x1) (f_sub A x2 x1))
                             (f_mul A (f_sub A y2 y1) (f_sub A y2 y1)))
                    (f_mul A (f_sub A z2 z1) (f_sub A z2 z1)))
      in ((x1, y1, z1), (x2, y2, z2), d0, 0, 0))"

text \<open>
  The body of \<^verbatim>\<open>lyapunov_estimate\<close> with the local constant \<^verbatim>\<open>eps\<close> as an argument.
  \<^verbatim>\<open>T/dt\<close> is Python's division and raises on \<open>dt = 0\<close>; the loop runs over
  \<^verbatim>\<open>range(int(T/dt))\<close>, where the quotient is the one of the arithmetic.
\<close>

definition lyapunov_eps :: "py_arith \<Rightarrow> real \<Rightarrow> real \<Rightarrow> real \<Rightarrow> real \<Rightarrow> py_error + real" where
  "lyapunov_eps A eps b T dt =
     (if dt = 0 then Inl ZeroDivisionError
      else (case fold (\<lambda>i. lyap_step A b dt) (py_range (py_trunc (f_div A T dt))) (lyap_init A eps) of
              (p1, p2, d0, d_sum, n) \<Rightarrow>
                Inr (if n > 0 then f_div A d_sum (f_mul A (real n) dt) else 0)))"

text \<open>\<^verbatim>\<open>lyapunov_estimate(b, T, dt)\<close>: the source fixes \<^verbatim>\<open>eps = 1e-8\<close>.\<close>

definition lyapunov_estimate :: "py_arith \<Rightarrow> real \<Rightarrow> real \<Rightarrow> real \<Rightarrow> py_error + real" where
  "lyapunov_estimate A b T dt = lyapunov_eps A (f_num A (1 / 10 ^ 8)) b T dt"

subsection \<open>The estimator as the specification words it\<close>

text \<open>
  A second description, following the specification's wording and not the source: both
  trajectories are advanced independently by forward Euler steps of the ODE, the separation
  after each step is recorded, and the renormalisation runs over the recorded separations.
\<close>

definition euler_step :: "py_arith \<Rightarrow> real \<Rightarrow> real \<Rightarrow> vec3 \<Rightarrow> vec3" where
  "euler_step A b dt s =
     (case (s, thomas A 0 s b) of
        ((x, y, z), (dx, dy, dz)) \<Rightarrow>
          (f_add A x (f_mul A dx dt), f_add A y (f_mul A dy dt), f_add A z (f_mul A dz dt)))"

definition separation :: "py_arith \<Rightarrow> vec3 \<Rightarrow> vec3 \<Rightarrow> real" where
  "separation A p q =
     (case (p, q) of
        ((x1, y1, z1), (x2, y2, z2)) \<Rightarrow>
          f_sqrt A
            (f_add A
               (f_add A (f_mul A (f_sub A x2 x1) (f_sub A x2 x1))
                        (f_mul A (f_sub A y2 y1) (f_sub A y2 y1)))
               (f_mul A (f_sub A z2 z1) (f_sub A z2 z1))))"

definition sep_at :: "py_arith \<Rightarrow> real \<Rightarrow> real \<Rightarrow> real \<Rightarrow> nat \<Rightarrow> real" where
  "sep_at A eps b dt j =
     separation A ((euler_step A b dt ^^ j) (1, 1, 1))
                  ((euler_step A b dt ^^ j) (f_add A 1 eps, 1, 1))"

text \<open>Renormalisation over a list of separations: reference, running sum, event count.\<close>

fun spec_renorm :: "py_arith \<Rightarrow> real list \<Rightarrow> real \<times> real \<times> nat \<Rightarrow> real \<times> real \<times> nat" where
  "spec_renorm A [] acc = acc"
| "spec_renorm A (d # ds) (d_ref, run_sum, cnt) =
     (if d > 0 then spec_renorm A ds (d, f_add A run_sum (f_log A (f_div A d d_ref)), cnt + 1)
      else spec_renorm A ds (d_ref, run_sum, cnt))"

definition spec_separations :: "py_arith \<Rightarrow> real \<Rightarrow> real \<Rightarrow> real \<Rightarrow> real \<Rightarrow> real list" where
  "spec_separations A eps b T dt = map (sep_at A eps b dt) [1..<nat \<lfloor>f_div A T dt\<rfloor> + 1]"

definition spec_estimate :: "py_arith \<Rightarrow> real \<Rightarrow> real \<Rightarrow> real \<Rightarrow> real \<Rightarrow> real" where
  "spec_estimate A eps b T dt =
     (case spec_renorm A (spec_separations A eps b T dt) (sep_at A eps b dt 0, 0, 0) of
        (d_ref, run_sum, cnt) \<Rightarrow> if cnt > 0 then f_div A run_sum (f_mul A (real cnt) dt) else 0)"

subsection \<open>Projection and the rhodonea fit\<close>

text \<open>
  \<^verbatim>\<open>np.linspace(start, stop, num)\<close>: \<open>num\<close> evenly spaced values from \<open>start\<close> to \<open>stop\<close>.
  numpy computes the step \<^verbatim>\<open>(stop - start) / (num - 1)\<close> once, the values as
  \<^verbatim>\<open>i * step + start\<close>, and sets the last value to \<open>stop\<close> itself.
\<close>

definition linspace :: "py_arith \<Rightarrow> real \<Rightarrow> real \<Rightarrow> nat \<Rightarrow> real list" where
  "linspace A start stop num =
     (if num = 0 then []
      else if num = 1 then [start]
      else (let step = f_div A (f_sub A stop start) (real (num - 1))
            in map (\<lambda>i. f_add A (f_mul A (real i) step) start) [0..<num - 1] @ [stop]))"

text \<open>\<^verbatim>\<open>np.arctan2(y, x)\<close>, the four-quadrant arctangent (signed zeros are not modelled).\<close>

definition np_arctan2 :: "real \<Rightarrow> real \<Rightarrow> real" where
  "np_arctan2 y x =
     (if 0 < x then arctan (y / x)
      else if x < 0 then (if 0 \<le> y then arctan (y / x) + pi else arctan (y / x) - pi)
      else if 0 < y then pi / 2
      else if y < 0 then - (pi / 2)
      else 0)"

text \<open>Lines 27 and 28: the polar coordinates of the projection onto the xy plane.\<close>

definition polar_r :: "vec3 list \<Rightarrow> real list" where
  "polar_r traj = map (\<lambda>(x, y, z). sqrt (x\<^sup>2 + y\<^sup>2)) traj"

definition polar_theta :: "vec3 list \<Rightarrow> real list" where
  "polar_theta traj = map (\<lambda>(x, y, z). np_arctan2 y x) traj"

text \<open>
  \<^verbatim>\<open>rhodonea(theta, k, m, phi, a)\<close> of the script. The arguments are numpy floats, so
  \<^verbatim>\<open>k/m\<close> with \<open>m = 0\<close> does not raise: it is infinite or not a number, and the cosine of
  either is \<open>NaN\<close>.
\<close>

definition rhodonea :: "real \<Rightarrow> real \<Rightarrow> real \<Rightarrow> real \<Rightarrow> real \<Rightarrow> pyfloat" where
  "rhodonea theta k m phi a =
     (if m = 0 then NaN else Fin (a * cos ((k / m) * theta + phi)))"

text \<open>
  numpy indexing of an array by an integer array: a negative index counts from the end, an
  index out of range raises.
\<close>

definition np_take :: "'a list \<Rightarrow> int list \<Rightarrow> py_error + 'a list" where
  "np_take xs idx =
     (let n = int (length xs)
      in if list_all (\<lambda>i. - n \<le> i \<and> i < n) idx
         then Inr (map (\<lambda>i. xs ! nat (if i < 0 then n + i else i)) idx)
         else Inl IndexError)"

text \<open>\<^verbatim>\<open>np.mean\<close>: the mean of an empty array is \<open>NaN\<close>.\<close>

definition np_mean :: "pyfloat list \<Rightarrow> pyfloat" where
  "np_mean xs =
     (if xs = [] then NaN
      else pf_lift2 (\<lambda>s n. s / n) (foldr pf_add xs (Fin 0)) (Fin (real (length xs))))"

text \<open>
  scipy's \<^verbatim>\<open>curve_fit\<close> is an argument of the model as well: it gets the model function,
  the abscissae, the ordinates and the initial guess, and returns the fitted parameters
  \<open>(k, m, phi, a)\<close> or raises.
\<close>

type_synonym rhodonea_params = "real \<times> real \<times> real \<times> real"

type_synonym curve_fitter =
  "(real \<Rightarrow> real \<Rightarrow> real \<Rightarrow> real \<Rightarrow> real \<Rightarrow> pyfloat) \<Rightarrow> real list \<Rightarrow> real list \<Rightarrow> rhodonea_params
     \<Rightarrow> py_error + rhodonea_params"

text \<open>
  Line 35: the index subset \<^verbatim>\<open>idx = np.linspace(0, len(theta)-1, 8000).astype(int)\<close>,
  computed on the arithmetic \<open>A\<close>.
\<close>

definition fit_idx :: "py_arith \<Rightarrow> real list \<Rightarrow> int list" where
  "fit_idx A theta = map py_trunc (linspace A 0 (real_of_int (int (length theta) - 1)) 8000)"

text \<open>
  Lines 35 to 40: the fit on the subset and the radial RMS error \<^verbatim>\<open>E_flower\<close>. The
  residual is written over exact reals, since its rounding changes the value of the error
  and not the samples it is taken over.
\<close>

definition fit_rhodonea ::
  "py_arith \<Rightarrow> curve_fitter \<Rightarrow> vec3 list \<Rightarrow> py_error + (rhodonea_params \<times> pyfloat)" where
  "fit_rhodonea A curve_fit traj =
     (let r = polar_r traj; theta = polar_theta traj;
          idx = fit_idx A theta
      in case np_take theta idx of
           Inl e \<Rightarrow> Inl e
         | Inr theta_idx \<Rightarrow>
             (case np_take r idx of
                Inl e \<Rightarrow> Inl e
              | Inr r_idx \<Rightarrow>
                  (case curve_fit rhodonea theta_idx r_idx (2, 5, 0, 1) of
                     Inl e \<Rightarrow> Inl e
                   | Inr (k, m, phi, a) \<Rightarrow>
                       (let r_fit = map (\<lambda>t. rhodonea t k m phi a) theta;
                            E_flower = pf_sqrt (np_mean (map2 (\<lambda>ro rf. pf_sq (pf_sub (Fin ro) rf)) r r_fit))
                        in Inr ((k, m, phi, a), E_flower)))))"


subsection \<open>Roundings\<close>

text \<open>
  What the index computation needs of a rounding \<open>r\<close>: it is monotone on the nonnegative
  numbers, it is exact on the natural numbers below \<open>2 ^ 53\<close>, and on the normal range its
  relative error is at most \<open>2 ^ - 53\<close>. An arithmetic is rounded by \<open>r\<close> when each of its
  four operations is the exact operation followed by \<open>r\<close>.
\<close>

definition rounding_ok :: "(real \<Rightarrow> real) \<Rightarrow> bool" where
  "rounding_ok r \<longleftrightarrow>
     (\<forall>x y. 0 \<le> x \<and> x \<le> y \<longrightarrow> r x \<le> r y)
     \<and> (\<forall>n. n < 2 ^ 53 \<longrightarrow> r (real n) = real n)
     \<and> (\<forall>x. 2 powr (- 1022) \<le> x \<longrightarrow> r x \<le> x + x / 2 ^ 53)
     \<and> (\<forall>x. 2 powr (- 1022) \<le> x \<longrightarrow> x - x / 2 ^ 53 \<le> r x)"

definition rounded_by :: "(real \<Rightarrow> real) \<Rightarrow> py_arith \<Rightarrow> bool" where
  "rounded_by r A \<longleftrightarrow>
     f_add A = (\<lambda>x y. r (x + y)) \<and> f_sub A = (\<lambda>x y. r (x - y))
     \<and> f_mul A = (\<lambda>x y. r (x * y)) \<and> f_div A = (\<lambda>x y. r (x / y))"

text \<open>
  The \<open>j\<close>-th index of the subset of \<open>n + 1\<close> samples under the rounding \<open>r\<close>: the step
  \<open>n / 7999\<close>, the product with \<open>j\<close> and the sum with the start \<open>0\<close> are each rounded; the
  last index is \<open>n\<close> itself.
\<close>

definition index_at :: "(real \<Rightarrow> real) \<Rightarrow> nat \<Rightarrow> nat \<Rightarrow> int" where
  "index_at r n j =
     (if j < 7999 then \<lfloor>r (r (real j * r (real n / 7999)))\<rfloor> else int n)"

subsection \<open>The radial RMS error in the words of the specification\<close>

text \<open>
  \<open>E = sqrt(mean((r_observed - r_model)^2))\<close> over the full sample set: the squared
  residual of one sample against the rhodonea with parameters \<open>(k, m, phi, a)\<close>, and the
  root of the mean over all samples of the trajectory. With \<open>m = 0\<close> the model radius is
  not a number, and so is the error.
\<close>

definition sq_residual :: "real \<Rightarrow> real \<Rightarrow> real \<Rightarrow> real \<Rightarrow> vec3 \<Rightarrow> real" where
  "sq_residual k m phi a = (\<lambda>(x, y, z). (sqrt (x\<^sup>2 + y\<^sup>2) - a * cos ((k / m) * np_arctan2 y x + phi))\<^sup>2)"

definition rms_all :: "rhodonea_params \<Rightarrow> vec3 list \<Rightarrow> pyfloat" where
  "rms_all = (\<lambda>(k, m, phi, a) traj.
     if m = 0 then NaN
     else Fin (sqrt (sum_list (map (sq_residual k m phi a) traj) / real (length traj))))"
section \<open>The configuration interface (thomas_flower_interface.py)\<close>

subsection \<open>Values of a table cell and their conversions\<close>

text \<open>
  What a row of a pandas frame holds, and what \<^verbatim>\<open>row.get\<close> returns: \<open>None\<close> (the default
  for an absent column), a float (\<open>NaN\<close> for an empty cell), an integer or a text.
\<close>

datatype pyval = PNone | PFloat pyfloat | PInt int | PStr string

text \<open>
  Python's conversions between text and numbers are built in, not code of this repository:
  they are arguments of the model. \<open>None\<close> stands for the \<^verbatim>\<open>ValueError\<close> that \<^verbatim>\<open>float(s)\<close>
  and \<^verbatim>\<open>int(s)\<close> raise on a text that is no number.
\<close>

record py_builtins =
  float_of_str :: "string \<Rightarrow> pyfloat option"
  int_of_str :: "string \<Rightarrow> int option"
  str_of_float :: "real \<Rightarrow> string"
  str_of_int :: "int \<Rightarrow> string"

fun py_float :: "py_builtins \<Rightarrow> pyval \<Rightarrow> py_error + pyfloat" where
  "py_float B PNone = Inl TypeError"
| "py_float B (PFloat x) = Inr x"
| "py_float B (PInt i) = Inr (Fin (real_of_int i))"
| "py_float B (PStr s) = (case float_of_str B s of None \<Rightarrow> Inl ValueError | Some x \<Rightarrow> Inr x)"

fun py_int :: "py_builtins \<Rightarrow> pyval \<Rightarrow> py_error + int" where
  "py_int B PNone = Inl TypeError"
| "py_int B (PFloat NaN) = Inl ValueError"
| "py_int B (PFloat (Fin x)) = Inr (py_trunc x)"
| "py_int B (PInt i) = Inr i"
| "py_int B (PStr s) = (case int_of_str B s of None \<Rightarrow> Inl ValueError | Some i \<Rightarrow> Inr i)"

fun py_str :: "py_builtins \<Rightarrow> pyval \<Rightarrow> string" where
  "py_str B PNone = ''None''"
| "py_str B (PFloat NaN) = ''nan''"
| "py_str B (PFloat (Fin x)) = str_of_float B x"
| "py_str B (PInt i) = str_of_int B i"
| "py_str B (PStr s) = s"

text \<open>\<^verbatim>\<open>pd.isna\<close> on a scalar.\<close>

fun pd_isna :: "pyval \<Rightarrow> bool" where
  "pd_isna PNone = True"
| "pd_isna (PFloat NaN) = True"
| "pd_isna _ = False"

subsection \<open>Frames and files\<close>

text \<open>
  A row (a pandas Series) is a list of labelled cells in column order; a frame is its
  column labels and its rows. A file system maps a path to the frame stored there as CSV.
\<close>

type_synonym series = "(string \<times> pyval) list"

record dataframe =
  df_columns :: "string list"
  df_rows :: "series list"

type_synonym filesystem = "string \<rightharpoonup> dataframe"

text \<open>Every row of a frame carries the frame's column labels.\<close>

definition wf_frame :: "dataframe \<Rightarrow> bool" where
  "wf_frame df = list_all (\<lambda>row. map fst row = df_columns df) (df_rows df)"

definition read_csv :: "filesystem \<Rightarrow> string \<Rightarrow> py_error + dataframe" where
  "read_csv fs path = (case fs path of None \<Rightarrow> Inl FileNotFoundError | Some df \<Rightarrow> Inr df)"

text \<open>\<^verbatim>\<open>row.get(key, default)\<close> and \<^verbatim>\<open>row[key]\<close>.\<close>

definition series_get :: "series \<Rightarrow> string \<Rightarrow> pyval \<Rightarrow> pyval" where
  "series_get row key dflt = (case map_of row key of None \<Rightarrow> dflt | Some v \<Rightarrow> v)"

definition series_item :: "series \<Rightarrow> string \<Rightarrow> py_error + pyval" where
  "series_item row key = (case map_of row key of None \<Rightarrow> Inl KeyError | Some v \<Rightarrow> Inr v)"

text \<open>
  \<^verbatim>\<open>df[key] = values\<close>: an existing column is replaced where it stands, a new one is
  appended. \<open>values\<close> has one entry per row.
\<close>

definition set_column :: "dataframe \<Rightarrow> string \<Rightarrow> pyval list \<Rightarrow> dataframe" where
  "set_column df key vals =
     \<lparr>df_columns = (if key \<in> set (df_columns df) then df_columns df else df_columns df @ [key]),
      df_rows = map2 (\<lambda>row v. AList.update key v row) (df_rows df) vals\<rparr>"

text \<open>Sequencing of computations that may raise.\<close>

fun raise_bind :: "py_error + 'a \<Rightarrow> ('a \<Rightarrow> py_error + 'b) \<Rightarrow> py_error + 'b" where
  "raise_bind (Inl e) f = Inl e"
| "raise_bind (Inr x) f = f x"

subsection \<open>Configurations\<close>

record ThomasFlowerConfig =
  cfg_id :: string
  description :: string
  b :: pyfloat
  dt :: pyfloat
  steps :: int
  transient_steps :: int
  seed_x :: pyfloat
  seed_y :: pyfloat
  seed_z :: pyfloat
  projection_plane :: string
  rotation_axis :: string
  rotation_angle_rad :: pyfloat
  rhodonea_k :: pyfloat
  rhodonea_m :: pyfloat
  rhodonea_phi :: pyfloat
  rhodonea_a :: pyfloat
  E_flower :: "pyfloat option"
  lambda_max :: "pyfloat option"
  FI_reported :: "pyfloat option"
  cfg_notes :: string

definition seed :: "ThomasFlowerConfig \<Rightarrow> pyfloat list" where
  "seed self = [seed_x self, seed_y self, seed_z self]"

definition compute_fi :: "ThomasFlowerConfig \<Rightarrow> pyfloat" where
  "compute_fi self = flower_index (E_flower self) (lambda_max self)"

text \<open>\<^verbatim>\<open>rhodonea_r(self, theta)\<close>, line 93.\<close>

definition rhodonea_r :: "ThomasFlowerConfig \<Rightarrow> pyfloat \<Rightarrow> pyfloat" where
  "rhodonea_r self theta =
     pf_mul (rhodonea_a self)
       (pf_cos (pf_add (pf_mul (pf_mul (rhodonea_k self) (rhodonea_m self)) theta) (rhodonea_phi self)))"

subsection \<open>The structured export\<close>

datatype json =
  JNull | JFloat pyfloat | JInt int | JStr string | JList "json list" | JDict "(string \<times> json) list"

definition json_opt :: "pyfloat option \<Rightarrow> json" where
  "json_opt v = (case v of None \<Rightarrow> JNull | Some x \<Rightarrow> JFloat x)"

definition to_js_config :: "ThomasFlowerConfig \<Rightarrow> json" where
  "to_js_config self =
     JDict
      [(''id'', JStr (cfg_id self)),
       (''description'', JStr (description self)),
       (''model'',
          JDict
           [(''b'', JFloat (b self)),
            (''dt'', JFloat (dt self)),
            (''steps'', JInt (steps self)),
            (''transient_steps'', JInt (transient_steps self)),
            (''seed'', JList (map JFloat (seed self)))]),
       (''projection'',
          JDict
           [(''plane'', JStr (projection_plane self)),
            (''rotation'',
               JDict
                [(''axis'', JStr (rotation_axis self)),
                 (''angle_rad'', JFloat (rotation_angle_rad self))])]),
       (''rhodonea'',
          JDict
           [(''k'', JFloat (rhodonea_k self)),
            (''m'', JFloat (rhodonea_m self)),
            (''phi'', JFloat (rhodonea_phi self)),
            (''a'', JFloat (rhodonea_a self)),
            (''formula'', JStr ''r(theta) = a * cos(k*m*theta + phi)'')]),
       (''metrics'',
          JDict
           [(''E_flower'', json_opt (E_flower self)),
            (''lambda_max'', json_opt (lambda_max self)),
            (''FI_computed'', JFloat (compute_fi self)),
            (''FI_reported'', json_opt (FI_reported self))]),
       (''notes'', JStr (cfg_notes self))]"

text \<open>\<^verbatim>\<open>export_js_config\<close>: the payload that is dumped to the output file.\<close>

definition export_js_config :: "ThomasFlowerConfig list \<Rightarrow> json" where
  "export_js_config configs = JList (map to_js_config configs)"

text \<open>The field names and the nesting of a document, without its values.\<close>

datatype shape = Leaf | SList "shape list" | SDict "(string \<times> shape) list"

fun json_shape :: "json \<Rightarrow> shape" where
  "json_shape (JList xs) = SList (map json_shape xs)"
| "json_shape (JDict kvs) = SDict (map (\<lambda>kv. (fst kv, json_shape (snd kv))) kvs)"
| "json_shape _ = Leaf"

fun json_get :: "json \<Rightarrow> string list \<Rightarrow> json option" where
  "json_get j [] = Some j"
| "json_get (JDict kvs) (k # ks) =
     (case map_of kvs k of None \<Rightarrow> None | Some v \<Rightarrow> json_get v ks)"
| "json_get _ (k # ks) = None"

text \<open>The schema of one exported record, as the specification lists it.\<close>

definition export_schema :: shape where
  "export_schema =
     SDict
      [(''id'', Leaf),
       (''description'', Leaf),
       (''model'',
          SDict [(''b'', Leaf), (''dt'', Leaf), (''steps'', Leaf), (''transient_steps'', Leaf),
                 (''seed'', SList [Leaf, Leaf, Leaf])]),
       (''projection'',
          SDict [(''plane'', Leaf),
                 (''rotation'', SDict [(''axis'', Leaf), (''angle_rad'', Leaf)])]),
       (''rhodonea'',
          SDict [(''k'', Leaf), (''m'', Leaf), (''phi'', Leaf), (''a'', Leaf), (''formula'', Leaf)]),
       (''metrics'',
          SDict [(''E_flower'', Leaf), (''lambda_max'', Leaf), (''FI_computed'', Leaf),
                 (''FI_reported'', Leaf)]),
       (''notes'', Leaf)]"

subsection \<open>Loading configurations\<close>

text \<open>
  Lines 151 to 153: \<^verbatim>\<open>float(v) if not pd.isna(v) else None\<close>.
\<close>

definition opt_float :: "py_builtins \<Rightarrow> pyval \<Rightarrow> py_error + pyfloat option" where
  "opt_float B v =
     (if \<not> pd_isna v then raise_bind (py_float B v) (\<lambda>x. Inr (Some x)) else Inr None)"

text \<open>
  The body of the loop of \<^verbatim>\<open>load_configs\<close> (lines 134 to 155): the constructor call
  converts the fields in the order of its keyword arguments, and the first conversion that
  raises ends it. The conversions to text cannot raise, so they are placed in the record
  directly.
\<close>

definition make_config :: "py_builtins \<Rightarrow> series \<Rightarrow> py_error + ThomasFlowerConfig" where
  "make_config B row =
     raise_bind (py_float B (series_get row ''b'' PNone)) (\<lambda>v_b.
     raise_bind (py_float B (series_get row ''dt'' PNone)) (\<lambda>v_dt.
     raise_bind (py_int B (series_get row ''steps'' PNone)) (\<lambda>v_steps.
     raise_bind (py_int B (series_get row ''transient_steps'' PNone)) (\<lambda>v_transient_steps.
     raise_bind (py_float B (series_get row ''seed_x'' PNone)) (\<lambda>v_seed_x.
     raise_bind (py_float B (series_get row ''seed_y'' PNone)) (\<lambda>v_seed_y.
     raise_bind (py_float B (series_get row ''seed_z'' PNone)) (\<lambda>v_seed_z.
     raise_bind (py_float B (series_get row ''rotation_angle_rad'' PNone)) (\<lambda>v_rotation_angle_rad.
     raise_bind (py_float B (series_get row ''rhodonea_k'' PNone)) (\<lambda>v_rhodonea_k.
     raise_bind (py_float B (series_get row ''rhodonea_m'' PNone)) (\<lambda>v_rhodonea_m.
     raise_bind (py_float B (series_get row ''rhodonea_phi'' PNone)) (\<lambda>v_rhodonea_phi.
     raise_bind (py_float B (series_get row ''rhodonea_a'' PNone)) (\<lambda>v_rhodonea_a.
     raise_bind (opt_float B (series_get row ''E_flower'' PNone)) (\<lambda>v_E_flower.
     raise_bind (opt_float B (series_get row ''lambda_max'' PNone)) (\<lambda>v_lambda_max.
     raise_bind (opt_float B (series_get row ''FI_reported'' PNone)) (\<lambda>v_FI_reported.
       Inr \<lparr>cfg_id = py_str B (series_get row ''id'' PNone),
            description = py_str B (series_get row ''description'' (PStr [])),
            b = v_b, dt = v_dt, steps = v_steps, transient_steps = v_transient_steps,
            seed_x = v_seed_x, seed_y = v_seed_y, seed_z = v_seed_z,
            projection_plane = py_str B (series_get row ''projection_plane'' PNone),
            rotation_axis = py_str B (series_get row ''rotation_axis'' PNone),
            rotation_angle_rad = v_rotation_angle_rad,
            rhodonea_k = v_rhodonea_k, rhodonea_m = v_rhodonea_m,
            rhodonea_phi = v_rhodonea_phi, rhodonea_a = v_rhodonea_a,
            E_flower = v_E_flower, lambda_max = v_lambda_max, FI_reported = v_FI_reported,
            cfg_notes = py_str B (series_get row ''notes'' (PStr []))\<rparr>)))))))))))))))"

text \<open>The loop of \<^verbatim>\<open>load_configs\<close> over the rows: there is no handler around its body.\<close>

fun load_rows :: "py_builtins \<Rightarrow> series list \<Rightarrow> py_error + ThomasFlowerConfig list" where
  "load_rows B [] = Inr []"
| "load_rows B (row # rest) =
     raise_bind (make_config B row) (\<lambda>cfg.
     raise_bind (load_rows B rest) (\<lambda>configs. Inr (cfg # configs)))"

definition load_configs :: "py_builtins \<Rightarrow> filesystem \<Rightarrow> string \<Rightarrow> py_error + ThomasFlowerConfig list" where
  "load_configs B fs csv_path = raise_bind (read_csv fs csv_path) (\<lambda>df. load_rows B (df_rows df))"

subsection \<open>Enrichment\<close>

text \<open>
  The two row functions of \<^verbatim>\<open>enrich_csv_with_fi\<close> (\<^verbatim>\<open>_fi\<close> and \<^verbatim>\<open>_delta\<close> in the
  source). Each body runs inside \<^verbatim>\<open>try ... except Exception: return nan\<close>.
\<close>

definition fi_of_row :: "py_builtins \<Rightarrow> series \<Rightarrow> pyfloat" where
  "fi_of_row B row =
     (case raise_bind (series_item row ''E_flower'') (py_float B) of
        Inl _ \<Rightarrow> NaN
      | Inr E \<Rightarrow>
          (case raise_bind (series_item row ''lambda_max'') (py_float B) of
             Inl _ \<Rightarrow> NaN
           | Inr L \<Rightarrow> flower_index (Some E) (Some L)))"

definition delta_of_row :: "py_builtins \<Rightarrow> series \<Rightarrow> pyfloat" where
  "delta_of_row B row =
     (case raise_bind (series_item row ''FI_reported'') (py_float B) of
        Inl _ \<Rightarrow> NaN
      | Inr r \<Rightarrow>
          (case raise_bind (series_item row ''FI_computed'') (py_float B) of
             Inl _ \<Rightarrow> NaN
           | Inr c \<Rightarrow> pf_abs (pf_sub r c)))"

text \<open>\<^verbatim>\<open>df.apply(f, axis=1)\<close> for a function that returns a float.\<close>

definition df_apply :: "(series \<Rightarrow> pyfloat) \<Rightarrow> dataframe \<Rightarrow> pyval list" where
  "df_apply f df = map (\<lambda>row. PFloat (f row)) (df_rows df)"

text \<open>
  \<^verbatim>\<open>enrich_csv_with_fi(csv_in, csv_out)\<close>: reads the frame at \<open>csv_in\<close>, sets the two
  columns and writes the frame to \<open>csv_out\<close>. The result is the file system afterwards.
\<close>

definition enrich_frame :: "py_builtins \<Rightarrow> dataframe \<Rightarrow> dataframe" where
  "enrich_frame B df =
     (let df1 = set_column df ''FI_computed'' (df_apply (fi_of_row B) df);
          df2 = set_column df1 ''FI_delta'' (df_apply (delta_of_row B) df1)
      in df2)"

definition enrich_csv_with_fi :: "py_builtins \<Rightarrow> filesystem \<Rightarrow> string \<Rightarrow> string \<Rightarrow> py_error + filesystem" where
  "enrich_csv_with_fi B fs csv_in csv_out =
     raise_bind (read_csv fs csv_in) (\<lambda>df. Inr (fs(csv_out \<mapsto> enrich_frame B df)))"

subsection \<open>A sample configuration\<close>

text \<open>A concrete configuration record, used to instantiate the theorems below.\<close>

definition example_config :: ThomasFlowerConfig where
  "example_config =
     \<lparr>cfg_id = ''cfg1'', description = ''sample'',
      b = Fin (19 / 100), dt = Fin (1 / 100), steps = 1000, transient_steps = 100,
      seed_x = Fin 1, seed_y = Fin 1, seed_z = Fin 1,
      projection_plane = ''xy'', rotation_axis = ''z'', rotation_angle_rad = Fin 0,
      rhodonea_k = Fin 1, rhodonea_m = Fin 2, rhodonea_phi = Fin 0, rhodonea_a = Fin 1,
      E_flower = Some (Fin 1), lambda_max = Some (Fin 0), FI_reported = None,
      cfg_notes = ''ok''\<rparr>"

text \<open>A table row that holds the sample configuration.\<close>

definition example_row :: series where
  "example_row =
     [(''id'', PStr ''cfg1''), (''description'', PStr ''sample''),
      (''b'', PFloat (Fin (19 / 100))), (''dt'', PFloat (Fin (1 / 100))),
      (''steps'', PInt 1000), (''transient_steps'', PInt 100),
      (''seed_x'', PFloat (Fin 1)), (''seed_y'', PFloat (Fin 1)), (''seed_z'', PFloat (Fin 1)),
      (''projection_plane'', PStr ''xy''), (''rotation_axis'', PStr ''z''),
      (''rotation_angle_rad'', PFloat (Fin 0)),
      (''rhodonea_k'', PFloat (Fin 1)), (''rhodonea_m'', PFloat (Fin 2)),
      (''rhodonea_phi'', PFloat (Fin 0)), (''rhodonea_a'', PFloat (Fin 1)),
      (''E_flower'', PFloat (Fin 1)), (''lambda_max'', PFloat (Fin 0)),
      (''FI_reported'', PFloat NaN), (''notes'', PStr ''ok'')]"

section \<open>Properties of the combiner\<close>

lemma py_truediv_Fin: "y \<noteq> 0 \<Longrightarrow> py_truediv (Fin x) (Fin y) = Inr (Fin (x / y))"
  by (simp add: py_truediv_def)

lemma flower_index_valid:
  "0 \<le> E \<Longrightarrow> 0 \<le> L \<Longrightarrow>
     flower_index (Some (Fin E)) (Some (Fin L)) = Fin ((1 / (1 + E)) * exp (- L))"
  by (simp add: flower_index_def pf_add_def pf_mul_def pf_exp_def pf_neg_def py_truediv_Fin)

text \<open>
  Claim C1. Given a radial RMS error \<open>E\<close> and an exponent estimate \<open>L\<close> that are both present
  and non-negative, \<open>flower_index\<close> returns \<open>(1 / (1 + E)) * exp (- L)\<close>. Whenever either
  argument is \<open>None\<close> or negative, the result is the distinguished value \<open>NaN\<close>, which is
  no number at all (in particular neither zero nor a default).
\<close>

theorem flower_index_contract:
  "(0 \<le> E \<and> 0 \<le> L \<longrightarrow>
      flower_index (Some (Fin E)) (Some (Fin L)) = Fin ((1 / (1 + E)) * exp (- L)))
   \<and> (e = None \<or> l = None \<or> (\<exists>x. e = Some x \<and> pf_lt x (Fin 0)) \<or> (\<exists>x. l = Some x \<and> pf_lt x (Fin 0))
        \<longrightarrow> flower_index e l = NaN)"
proof (intro conjI impI)
  assume "0 \<le> E \<and> 0 \<le> L"
  then show "flower_index (Some (Fin E)) (Some (Fin L)) = Fin ((1 / (1 + E)) * exp (- L))"
    by (simp add: flower_index_valid)
next
  assume "e = None \<or> l = None \<or> (\<exists>x. e = Some x \<and> pf_lt x (Fin 0)) \<or> (\<exists>x. l = Some x \<and> pf_lt x (Fin 0))"
  then show "flower_index e l = NaN"
    by (auto simp: flower_index_def split: option.splits)
qed

theorem flower_index_contract_witness:
  "flower_index (Some (Fin 1)) (Some (Fin 0)) = Fin (1 / 2)
   \<and> flower_index None (Some (Fin 0)) = NaN
   \<and> flower_index (Some (Fin 3)) (Some (Fin (- 2))) = NaN"
  using flower_index_contract [of 1 0 None "Some (Fin 0)"]
        flower_index_contract [of 1 0 "Some (Fin 3)" "Some (Fin (- 2))"]
  by simp

section \<open>Properties of the rounding\<close>

lemma round_even_int [simp]: "round_even (of_int k) = k"
  by (simp add: round_even_def)

lemma round_even_bounds: "r - 1 / 2 \<le> of_int (round_even r) \<and> of_int (round_even r) \<le> r + 1 / 2"
  unfolding round_even_def Let_def by (auto; linarith)

lemma round_even_mono:
  assumes "r \<le> s" shows "round_even r \<le> round_even s"
proof (rule ccontr)
  assume "\<not> round_even r \<le> round_even s"
  then have gt: "round_even s + 1 \<le> round_even r" by simp
  have fl: "\<lfloor>r\<rfloor> \<le> \<lfloor>s\<rfloor>" using assms by (rule floor_mono)
  have rs: "round_even s \<ge> \<lfloor>s\<rfloor>" "round_even r \<le> \<lfloor>r\<rfloor> + 1"
    unfolding round_even_def Let_def by auto
  with gt fl have eq: "\<lfloor>r\<rfloor> = \<lfloor>s\<rfloor>" "round_even r = \<lfloor>r\<rfloor> + 1" "round_even s = \<lfloor>s\<rfloor>" by linarith+
  from eq(2) have r1: "\<not> r - of_int \<lfloor>r\<rfloor> < 1 / 2"
    unfolding round_even_def Let_def by (auto split: if_splits)
  from eq(3) have s1: "\<not> 1 / 2 < s - of_int \<lfloor>s\<rfloor>"
    unfolding round_even_def Let_def by (auto split: if_splits)
  from r1 s1 eq(1) assms have e: "r - of_int \<lfloor>r\<rfloor> = 1 / 2" "s - of_int \<lfloor>s\<rfloor> = 1 / 2" by linarith+
  from e eq(2) have "odd \<lfloor>r\<rfloor>" unfolding round_even_def Let_def by (auto split: if_splits)
  moreover from e eq(3) have "even \<lfloor>s\<rfloor>" unfolding round_even_def Let_def by (auto split: if_splits)
  ultimately show False using eq(1) by simp
qed

lemma grid_pos: "0 < grid k" by (simp add: grid_def)

lemma pow_over_grid: "2 powr of_int k / grid k = of_int (2 ^ 52)"
proof -
  have "2 powr of_int k / grid k = 2 powr (of_int k - of_int (k - 52))"
    unfolding grid_def by (simp only: powr_diff)
  also have "of_int k - of_int (k - 52) = (52 :: real)" by simp
  finally have "2 powr of_int k / grid k = 2 powr 52" .
  then show ?thesis by simp
qed

lemma pow_succ_over_grid: "2 powr of_int (k + 1) / grid k = of_int (2 ^ 53)"
proof -
  have "2 powr of_int (k + 1) / grid k = 2 powr (of_int (k + 1) - of_int (k - 52))"
    unfolding grid_def by (simp only: powr_diff)
  also have "of_int (k + 1) - of_int (k - 52) = (53 :: real)" by simp
  finally have "2 powr of_int (k + 1) / grid k = 2 powr 53" .
  then show ?thesis by simp
qed

text \<open>Rounding on one grid is monotone and fixes the grid points.\<close>

lemma on_grid_mono: "x \<le> y \<Longrightarrow> on_grid k x \<le> on_grid k y"
proof -
  assume "x \<le> y"
  then have "x / grid k \<le> y / grid k" using grid_pos [of k] by (simp add: divide_right_mono)
  then have "round_even (x / grid k) \<le> round_even (y / grid k)" by (rule round_even_mono)
  then show ?thesis unfolding on_grid_def using grid_pos [of k] by (simp add: mult_right_mono)
qed

lemma on_grid_pow: "on_grid k (2 powr of_int k) = 2 powr of_int k"
proof -
  have "on_grid k (2 powr of_int k) = of_int (2 ^ 52) * grid k"
    unfolding on_grid_def pow_over_grid by (simp only: round_even_int)
  also have "\<dots> = (2 powr of_int k / grid k) * grid k" by (simp only: pow_over_grid)
  also have "\<dots> = 2 powr of_int k" using grid_pos [of k] by simp
  finally show ?thesis .
qed

lemma on_grid_pow_succ: "on_grid k (2 powr of_int (k + 1)) = 2 powr of_int (k + 1)"
proof -
  have "on_grid k (2 powr of_int (k + 1)) = of_int (2 ^ 53) * grid k"
    unfolding on_grid_def pow_succ_over_grid by (simp only: round_even_int)
  also have "\<dots> = (2 powr of_int (k + 1) / grid k) * grid k" by (simp only: pow_succ_over_grid)
  also have "\<dots> = 2 powr of_int (k + 1)" using grid_pos [of k] by simp
  finally show ?thesis .
qed

lemma on_grid_zero: "on_grid k 0 = 0"
  using round_even_int [of 0] by (simp add: on_grid_def)

lemma round_double_on_grid: "x \<noteq> 0 \<Longrightarrow> round_double x = on_grid (binade x) x"
  by (simp add: round_double_def)

text \<open>The binade of a positive number.\<close>

lemma binade_upper: assumes "0 < x" shows "x < 2 powr of_int (binade x + 1)"
proof -
  have "log 2 x < of_int (\<lfloor>log 2 x\<rfloor> + 1)" by linarith
  also have "\<dots> \<le> of_int (binade x + 1)" using assms by (simp add: binade_def)
  finally have "log 2 x < of_int (binade x + 1)" .
  then show ?thesis using assms by (simp add: log_less_iff)
qed

lemma binade_lower: assumes "0 < x" and "- 1022 < binade x" shows "2 powr of_int (binade x) \<le> x"
proof -
  from assms have "binade x = \<lfloor>log 2 x\<rfloor>" by (simp add: binade_def max_def split: if_splits)
  then have "of_int (binade x) \<le> log 2 x" by simp
  then show ?thesis using assms(1) by (simp add: le_log_iff)
qed

lemma binade_ge: "- 1022 \<le> binade x"
  by (simp add: binade_def)

lemma binade_mono: assumes "0 < x" and "x \<le> y" shows "binade x \<le> binade y"
proof -
  have "log 2 x \<le> log 2 y" using assms by simp
  then have "\<lfloor>log 2 x\<rfloor> \<le> \<lfloor>log 2 y\<rfloor>" by (rule floor_mono)
  then show ?thesis using assms by (simp add: binade_def)
qed

lemma round_double_upper: assumes "0 < x" shows "round_double x \<le> 2 powr of_int (binade x + 1)"
proof -
  have "on_grid (binade x) x \<le> on_grid (binade x) (2 powr of_int (binade x + 1))"
    using binade_upper [OF assms] by (intro on_grid_mono) simp
  also have "\<dots> = 2 powr of_int (binade x + 1)" by (rule on_grid_pow_succ)
  finally show ?thesis using assms by (simp only: round_double_on_grid [OF less_imp_neq [THEN not_sym]])
qed

lemma round_double_nonneg: assumes "0 < x" shows "0 \<le> round_double x"
proof -
  have "on_grid (binade x) 0 \<le> on_grid (binade x) x" using assms by (intro on_grid_mono) simp
  then show ?thesis using assms by (simp add: round_double_on_grid on_grid_zero)
qed

lemma round_double_lower:
  assumes "0 < x" and "- 1022 < binade x" shows "2 powr of_int (binade x) \<le> round_double x"
proof -
  have "2 powr of_int (binade x) = on_grid (binade x) (2 powr of_int (binade x))"
    by (simp only: on_grid_pow)
  also have "\<dots> \<le> on_grid (binade x) x"
    using binade_lower [OF assms] by (intro on_grid_mono)
  finally show ?thesis using assms(1) by (simp only: round_double_on_grid [OF less_imp_neq [THEN not_sym]])
qed

lemma round_double_mono:
  assumes "0 \<le> x" and "x \<le> y" shows "round_double x \<le> round_double y"
proof (cases "x = 0")
  case True
  show ?thesis
  proof (cases "y = 0")
    case True with \<open>x = 0\<close> show ?thesis by simp
  next
    case False
    with assms True have "0 < y" by simp
    from round_double_nonneg [OF this] True show ?thesis by (simp add: round_double_def)
  qed
next
  case False
  with assms have x: "0 < x" and y: "0 < y" by simp_all
  have le: "binade x \<le> binade y" using x assms(2) by (rule binade_mono)
  show ?thesis
  proof (cases "binade x = binade y")
    case True
    have "on_grid (binade y) x \<le> on_grid (binade y) y" using assms(2) by (rule on_grid_mono)
    then show ?thesis using x y True by (simp add: round_double_on_grid)
  next
    case False
    with le have lt: "binade x + 1 \<le> binade y" by simp
    then have "- 1022 < binade y" using binade_ge [of x] by linarith
    from round_double_lower [OF y this] have "2 powr of_int (binade y) \<le> round_double y" .
    moreover have "2 powr of_int (binade x + 1) \<le> (2::real) powr of_int (binade y)"
      using lt by (intro powr_mono) simp_all
    ultimately show ?thesis using round_double_upper [OF x] by linarith
  qed
qed

lemma round_double_zero: "round_double 0 = 0"
  by (simp add: round_double_def)

lemma binade_one: "binade 1 = 0"
  by (simp add: binade_def)

lemma round_double_one: "round_double 1 = 1"
proof -
  have "round_double 1 = on_grid 0 (2 powr of_int 0)"
    by (simp add: round_double_on_grid binade_one)
  also have "\<dots> = 2 powr of_int 0" by (rule on_grid_pow)
  finally show ?thesis by simp
qed

lemma round_double_underflow:
  assumes "0 < x" and "x < 2 powr (- 1075)" shows "round_double x = 0"
proof -
  have "log 2 x < - 1075" using assms by (simp add: log_less_iff)
  then have "\<lfloor>log 2 x\<rfloor> < - 1022" by linarith
  then have b: "binade x = - 1022" using assms(1) by (simp add: binade_def)
  have g: "grid (- 1022) = 2 powr (- 1074)" by (simp add: grid_def)
  have "x / 2 powr (- 1074) < 2 powr (- 1075) / 2 powr (- 1074)"
    using assms(2) by (simp add: divide_strict_right_mono)
  also have "\<dots> = 2 powr (- 1075 - (- 1074))" by (simp only: powr_diff)
  also have "\<dots> = 1 / 2" by (simp add: powr_minus)
  finally have lt: "x / 2 powr (- 1074) < 1 / 2" .
  have pos: "0 < x / 2 powr (- 1074)" using assms(1) by simp
  have "\<lfloor>x / 2 powr (- 1074)\<rfloor> = 0" using lt pos by linarith
  then have "round_even (x / 2 powr (- 1074)) = 0"
    using lt by (simp add: round_even_def)
  then show ?thesis using assms(1) by (simp add: round_double_on_grid b on_grid_def g)
qed

lemma exp_one_ge: "5 / 2 \<le> exp (1 :: real)"
  using exp_lower_Taylor_quadratic [of "1 :: real"] by simp

lemma pow_cmp: "(2 :: real) ^ 1075 < (5 / 2) ^ 1000"
proof -
  have "(2 :: real) ^ 5 < (5 / 2) ^ 4" by (simp add: power_divide)
  then have "((2 :: real) ^ 5) ^ 250 < ((5 / 2) ^ 4) ^ 250"
    by (intro power_strict_mono) simp_all
  then have "(2 :: real) ^ 1250 < (5 / 2) ^ 1000" by (simp only: power_mult [symmetric]) simp
  moreover have "(2 :: real) ^ 1075 \<le> 2 ^ 1250" by (intro power_increasing) simp_all
  ultimately show ?thesis by linarith
qed

lemma exp_1000_big: "(2 :: real) ^ 1075 < exp 1000"
proof -
  have "exp (1000 :: real) = exp (of_nat 1000 * 1)" by simp
  also have "\<dots> = exp 1 ^ 1000" by (simp only: exp_of_nat_mult)
  finally have e: "exp (1000 :: real) = exp 1 ^ 1000" .
  have "(5 / 2 :: real) ^ 1000 \<le> exp 1 ^ 1000"
    using exp_one_ge by (intro power_mono) simp_all
  with pow_cmp e show ?thesis by linarith
qed

lemma exp_m1000_small: "exp (- 1000 :: real) < 2 powr (- 1075)"
proof -
  have "exp (- 1000 :: real) = 1 / exp 1000" by (simp add: exp_minus inverse_eq_divide)
  also have "\<dots> < 1 / 2 ^ 1075"
    using exp_1000_big by (intro divide_strict_left_mono) simp_all
  also have "\<dots> = 2 powr (- 1075)" by (simp add: powr_minus inverse_eq_divide)
  finally show ?thesis .
qed

lemma round_exp_m1000: "round_double (exp (- 1000)) = 0"
  by (rule round_double_underflow [OF _ exp_m1000_small]) simp

section \<open>The combiner in double precision\<close>

lemma round_sum_ge_one: "0 \<le> E \<Longrightarrow> 1 \<le> round_double (1 + E)"
  using round_double_mono [of 1 "1 + E"] by (simp add: round_double_one)

lemma round_unit: "0 \<le> x \<Longrightarrow> x \<le> 1 \<Longrightarrow> 0 \<le> round_double x \<and> round_double x \<le> 1"
  using round_double_mono [of 0 x] round_double_mono [of x 1]
  by (simp add: round_double_zero round_double_one)

lemma flower_index_ieee_valid:
  assumes "0 \<le> E" and "0 \<le> L"
  shows "flower_index_ieee (Some (Fin E)) (Some (Fin L)) =
     Fin (round_double (round_double (1 / round_double (1 + E)) * round_double (exp (- L))))"
proof -
  have "round_double (1 + E) \<noteq> 0" using round_sum_ge_one [OF assms(1)] by simp
  then show ?thesis
    using assms
    by (simp add: flower_index_ieee_def fl_add_def fl_mul_def fl_exp_def fl_truediv_def pf_neg_def)
qed

lemma quot_unit:
  assumes "0 \<le> E"
  shows "0 \<le> round_double (1 / round_double (1 + E)) \<and> round_double (1 / round_double (1 + E)) \<le> 1"
proof -
  have a: "1 \<le> round_double (1 + E)" using assms by (rule round_sum_ge_one)
  then have "0 \<le> 1 / round_double (1 + E)" and "1 / round_double (1 + E) \<le> 1" by simp_all
  then show ?thesis by (rule round_unit)
qed

lemma exp_unit:
  assumes "0 \<le> L"
  shows "0 \<le> round_double (exp (- L)) \<and> round_double (exp (- L)) \<le> 1"
proof -
  have "0 \<le> exp (- L)" and "exp (- L) \<le> 1" using assms by simp_all
  then show ?thesis by (rule round_unit)
qed

lemma fi_ieee_unit:
  assumes "0 \<le> E" and "0 \<le> L"
  shows "0 \<le> round_double (round_double (1 / round_double (1 + E)) * round_double (exp (- L)))
     \<and> round_double (round_double (1 / round_double (1 + E)) * round_double (exp (- L))) \<le> 1"
proof -
  let ?q = "round_double (1 / round_double (1 + E))" and ?e = "round_double (exp (- L))"
  have q: "0 \<le> ?q \<and> ?q \<le> 1" using assms(1) by (rule quot_unit)
  have e: "0 \<le> ?e \<and> ?e \<le> 1" using assms(2) by (rule exp_unit)
  have "0 \<le> ?q * ?e" using q e by simp
  moreover have "?q * ?e \<le> 1 * 1" using q e by (intro mult_mono) simp_all
  ultimately show ?thesis by (intro round_unit) simp_all
qed

lemma quot_antimono:
  assumes "0 \<le> E1" and "E1 \<le> E2"
  shows "round_double (1 / round_double (1 + E2)) \<le> round_double (1 / round_double (1 + E1))"
proof -
  have a1: "1 \<le> round_double (1 + E1)" using assms(1) by (rule round_sum_ge_one)
  have "round_double (1 + E1) \<le> round_double (1 + E2)"
    using assms by (intro round_double_mono) simp_all
  with a1 have "1 / round_double (1 + E2) \<le> 1 / round_double (1 + E1)"
    by (intro divide_left_mono) (simp_all add: mult_pos_pos)
  moreover have "0 \<le> 1 / round_double (1 + E2)"
    using a1 \<open>round_double (1 + E1) \<le> round_double (1 + E2)\<close> by simp
  ultimately show ?thesis by (intro round_double_mono)
qed

lemma fi_ieee_mono_E:
  assumes "0 \<le> E1" and "E1 \<le> E2" and "0 \<le> L"
  shows "round_double (round_double (1 / round_double (1 + E2)) * round_double (exp (- L)))
     \<le> round_double (round_double (1 / round_double (1 + E1)) * round_double (exp (- L)))"
proof -
  have e: "0 \<le> round_double (exp (- L))" using exp_unit [OF assms(3)] by simp
  have q2: "0 \<le> round_double (1 / round_double (1 + E2))"
    using quot_unit [of E2] assms by simp
  have "round_double (1 / round_double (1 + E2)) * round_double (exp (- L))
      \<le> round_double (1 / round_double (1 + E1)) * round_double (exp (- L))"
    using quot_antimono [OF assms(1,2)] e by (rule mult_right_mono)
  moreover have "0 \<le> round_double (1 / round_double (1 + E2)) * round_double (exp (- L))"
    using q2 e by simp
  ultimately show ?thesis by (intro round_double_mono)
qed

lemma fi_ieee_mono_L:
  assumes "0 \<le> E" and "0 \<le> L1" and "L1 \<le> L2"
  shows "round_double (round_double (1 / round_double (1 + E)) * round_double (exp (- L2)))
     \<le> round_double (round_double (1 / round_double (1 + E)) * round_double (exp (- L1)))"
proof -
  have q: "0 \<le> round_double (1 / round_double (1 + E))" using quot_unit [OF assms(1)] by simp
  have e2: "0 \<le> round_double (exp (- L2))" using exp_unit [of L2] assms by simp
  have "round_double (exp (- L2)) \<le> round_double (exp (- L1))"
    using assms by (intro round_double_mono) simp_all
  then have "round_double (1 / round_double (1 + E)) * round_double (exp (- L2))
      \<le> round_double (1 / round_double (1 + E)) * round_double (exp (- L1))"
    using q by (rule mult_left_mono)
  moreover have "0 \<le> round_double (1 / round_double (1 + E)) * round_double (exp (- L2))"
    using q e2 by simp
  ultimately show ?thesis by (intro round_double_mono)
qed

text \<open>
  Claim C6, as amended. In double precision the combiner is well-behaved on valid inputs in
  the following sense: \<open>FI(0, 0)\<close> is exactly \<open>1\<close>; for all \<open>E \<ge> 0\<close> and \<open>L \<ge> 0\<close> the result
  is a number in the closed interval \<open>[0, 1]\<close>; and the result does not increase when \<open>E\<close>
  grows and does not increase when \<open>L\<close> grows. The comparisons are Python's own (\<open>pf_le\<close>),
  false on \<open>NaN\<close>.
\<close>

theorem flower_index_ieee_bounded_monotone:
  "flower_index_ieee (Some (Fin 0)) (Some (Fin 0)) = Fin 1
   \<and> (\<forall>E L. 0 \<le> E \<and> 0 \<le> L \<longrightarrow>
         pf_le (Fin 0) (flower_index_ieee (Some (Fin E)) (Some (Fin L)))
         \<and> pf_le (flower_index_ieee (Some (Fin E)) (Some (Fin L))) (Fin 1))
   \<and> (\<forall>E1 E2 L. 0 \<le> E1 \<and> E1 \<le> E2 \<and> 0 \<le> L \<longrightarrow>
         pf_le (flower_index_ieee (Some (Fin E2)) (Some (Fin L)))
               (flower_index_ieee (Some (Fin E1)) (Some (Fin L))))
   \<and> (\<forall>E L1 L2. 0 \<le> E \<and> 0 \<le> L1 \<and> L1 \<le> L2 \<longrightarrow>
         pf_le (flower_index_ieee (Some (Fin E)) (Some (Fin L2)))
               (flower_index_ieee (Some (Fin E)) (Some (Fin L1))))"
proof (intro conjI allI impI)
  show "flower_index_ieee (Some (Fin 0)) (Some (Fin 0)) = Fin 1"
    using flower_index_ieee_valid [of 0 0] by (simp add: round_double_one)
next
  fix E L :: real assume h: "0 \<le> E \<and> 0 \<le> L"
  then show "pf_le (Fin 0) (flower_index_ieee (Some (Fin E)) (Some (Fin L)))"
    using fi_ieee_unit [of E L] by (simp add: flower_index_ieee_valid)
  from h show "pf_le (flower_index_ieee (Some (Fin E)) (Some (Fin L))) (Fin 1)"
    using fi_ieee_unit [of E L] by (simp add: flower_index_ieee_valid)
next
  fix E1 E2 L :: real assume h: "0 \<le> E1 \<and> E1 \<le> E2 \<and> 0 \<le> L"
  then have "0 \<le> E2" by simp
  with h show "pf_le (flower_index_ieee (Some (Fin E2)) (Some (Fin L)))
      (flower_index_ieee (Some (Fin E1)) (Some (Fin L)))"
    using fi_ieee_mono_E [of E1 E2 L] by (simp add: flower_index_ieee_valid)
next
  fix E L1 L2 :: real assume h: "0 \<le> E \<and> 0 \<le> L1 \<and> L1 \<le> L2"
  then have "0 \<le> L2" by simp
  with h show "pf_le (flower_index_ieee (Some (Fin E)) (Some (Fin L2)))
      (flower_index_ieee (Some (Fin E)) (Some (Fin L1)))"
    using fi_ieee_mono_L [of E L1 L2] by (simp add: flower_index_ieee_valid)
qed

theorem flower_index_ieee_bounded_monotone_witness:
  "pf_le (Fin 0) (flower_index_ieee (Some (Fin 1)) (Some (Fin 2)))
   \<and> pf_le (flower_index_ieee (Some (Fin 1)) (Some (Fin 2))) (Fin 1)
   \<and> pf_le (flower_index_ieee (Some (Fin 2)) (Some (Fin 0))) (flower_index_ieee (Some (Fin 1)) (Some (Fin 0)))
   \<and> pf_le (flower_index_ieee (Some (Fin 0)) (Some (Fin 2))) (flower_index_ieee (Some (Fin 0)) (Some (Fin 1)))"
proof -
  note w = flower_index_ieee_bounded_monotone
  have a: "pf_le (Fin 0) (flower_index_ieee (Some (Fin 1)) (Some (Fin 2)))
     \<and> pf_le (flower_index_ieee (Some (Fin 1)) (Some (Fin 2))) (Fin 1)"
    using w by (metis zero_le_one zero_le_numeral)
  have b: "pf_le (flower_index_ieee (Some (Fin 2)) (Some (Fin 0))) (flower_index_ieee (Some (Fin 1)) (Some (Fin 0)))"
    using w by (metis zero_le_one one_le_numeral order_refl)
  have c: "pf_le (flower_index_ieee (Some (Fin 0)) (Some (Fin 2))) (flower_index_ieee (Some (Fin 0)) (Some (Fin 1)))"
    using w by (metis zero_le_one one_le_numeral order_refl)
  show ?thesis using a b c by simp
qed

text \<open>
  The claim as stated fails. The exponential of \<open>- 1000\<close> lies below half of the smallest
  positive double and rounds to \<open>0\<close>, so \<open>FI(0, 1000)\<close> is \<open>0\<close>, which is not in \<open>(0, 1]\<close>. The
  result at \<open>(1, 1000)\<close> and at \<open>(0, 2000)\<close> is \<open>0\<close> as well, so the combiner is not strictly
  decreasing in \<open>E\<close> nor in \<open>L\<close>.
\<close>

lemma round_exp_m2000: "round_double (exp (- 2000)) = 0"
proof -
  have "exp (- 2000 :: real) \<le> exp (- 1000)" by simp
  then have "exp (- 2000 :: real) < 2 powr (- 1075)" using exp_m1000_small by linarith
  then show ?thesis by (intro round_double_underflow) simp_all
qed

theorem flower_index_underflow_counterexample:
  "flower_index_ieee (Some (Fin 0)) (Some (Fin 1000)) = Fin 0
   \<and> \<not> pf_lt (Fin 0) (flower_index_ieee (Some (Fin 0)) (Some (Fin 1000)))
   \<and> flower_index_ieee (Some (Fin 1)) (Some (Fin 1000)) = Fin 0
   \<and> flower_index_ieee (Some (Fin 0)) (Some (Fin 2000)) = Fin 0"
proof -
  have a: "flower_index_ieee (Some (Fin 0)) (Some (Fin 1000)) = Fin 0"
    using flower_index_ieee_valid [of 0 1000] by (simp add: round_exp_m1000 round_double_zero)
  have b: "flower_index_ieee (Some (Fin 1)) (Some (Fin 1000)) = Fin 0"
    using flower_index_ieee_valid [of 1 1000] by (simp add: round_exp_m1000 round_double_zero)
  have c: "flower_index_ieee (Some (Fin 0)) (Some (Fin 2000)) = Fin 0"
    using flower_index_ieee_valid [of 0 2000] by (simp add: round_exp_m2000 round_double_zero)
  show ?thesis using a b c by simp
qed

section \<open>Properties of the perturbation exponent estimator\<close>

lemma nat_py_trunc: "nat (py_trunc r) = nat \<lfloor>r\<rfloor>"
proof (cases "0 \<le> r")
  case True then show ?thesis by (simp add: py_trunc_def)
next
  case False
  then have 1: "\<lceil>r\<rceil> \<le> 0" by (simp add: ceiling_le_zero)
  from False have 2: "\<lfloor>r\<rfloor> \<le> 0" by linarith
  from False 1 2 show ?thesis by (simp add: py_trunc_def)
qed

lemma length_py_range: "length (py_range (py_trunc r)) = nat \<lfloor>r\<rfloor>"
  by (simp add: py_range_def nat_py_trunc)

lemma fold_const: "fold (\<lambda>i. f) xs s = (f ^^ length xs) s"
  by (induction xs arbitrary: s) (simp_all add: funpow_swap1)

lemma spec_renorm_append:
  "spec_renorm A (xs @ ys) acc = spec_renorm A ys (spec_renorm A xs acc)"
proof (induction xs arbitrary: acc)
  case Nil show ?case by simp
next
  case (Cons d ds)
  obtain r s c where acc: "acc = (r, s, c)" by (cases acc) auto
  show ?case unfolding acc using Cons.IH by simp
qed

lemma lyap_step_euler:
  "lyap_step A b dt (p, q, d0, s, c) =
     (euler_step A b dt p, euler_step A b dt q,
      spec_renorm A [separation A (euler_step A b dt p) (euler_step A b dt q)] (d0, s, c))"
  for b dt :: real
  by (cases p; cases q) (simp add: euler_step_def thomas_def separation_def Let_def)

lemma lyap_loop_refines:
  "(lyap_step A b dt ^^ k) (p, q, acc) =
     ((euler_step A b dt ^^ k) p, (euler_step A b dt ^^ k) q,
      spec_renorm A (map (\<lambda>j. separation A ((euler_step A b dt ^^ j) p) ((euler_step A b dt ^^ j) q)) [1..<k + 1]) acc)"
  for b dt :: real
proof (induction k)
  case 0 show ?case by simp
next
  case (Suc k)
  let ?ds = "map (\<lambda>j. separation A ((euler_step A b dt ^^ j) p) ((euler_step A b dt ^^ j) q)) [1..<k + 1]"
  obtain r s c where acc: "spec_renorm A ?ds acc = (r, s, c)"
    by (cases "spec_renorm A ?ds acc") auto
  have up: "[1..<Suc k + 1] = [1..<k + 1] @ [Suc k]" by simp
  have "(lyap_step A b dt ^^ Suc k) (p, q, acc) = lyap_step A b dt ((lyap_step A b dt ^^ k) (p, q, acc))"
    by simp
  also have "\<dots> = lyap_step A b dt ((euler_step A b dt ^^ k) p, (euler_step A b dt ^^ k) q, r, s, c)"
    by (simp only: Suc.IH acc)
  also have "\<dots> = ((euler_step A b dt ^^ Suc k) p, (euler_step A b dt ^^ Suc k) q,
      spec_renorm A [separation A ((euler_step A b dt ^^ Suc k) p) ((euler_step A b dt ^^ Suc k) q)] (r, s, c))"
    by (simp only: lyap_step_euler funpow.simps o_apply)
  also have "spec_renorm A [separation A ((euler_step A b dt ^^ Suc k) p) ((euler_step A b dt ^^ Suc k) q)] (r, s, c)
      = spec_renorm A (map (\<lambda>j. separation A ((euler_step A b dt ^^ j) p) ((euler_step A b dt ^^ j) q)) [1..<Suc k + 1]) acc"
    by (simp only: up map_append spec_renorm_append acc list.map)
  finally show ?case .
qed

lemma lyap_init_eq:
  "lyap_init A eps = ((1, 1, 1), (f_add A 1 eps, 1, 1), separation A (1, 1, 1) (f_add A 1 eps, 1, 1), 0, 0)"
  by (simp add: lyap_init_def Let_def separation_def)

lemma sep_at_0: "sep_at A eps b dt 0 = separation A (1, 1, 1) (f_add A 1 eps, 1, 1)"
  for b dt :: real
  by (simp add: sep_at_def)

lemma lyap_loop_init:
  "(lyap_step A b dt ^^ k) (lyap_init A eps) =
     ((euler_step A b dt ^^ k) (1, 1, 1), (euler_step A b dt ^^ k) (f_add A 1 eps, 1, 1),
      spec_renorm A (map (sep_at A eps b dt) [1..<k + 1]) (sep_at A eps b dt 0, 0, 0))"
  for b dt :: real
proof -
  have "sep_at A eps b dt = (\<lambda>j. separation A ((euler_step A b dt ^^ j) (1, 1, 1)) ((euler_step A b dt ^^ j) (f_add A 1 eps, 1, 1)))"
    by (rule ext) (simp add: sep_at_def)
  then show ?thesis by (simp only: lyap_init_eq lyap_loop_refines funpow_0)
qed

lemma lyap_fold_state:
  "fold (\<lambda>i. lyap_step A b dt) (py_range (py_trunc (f_div A T dt))) (lyap_init A eps) =
     ((euler_step A b dt ^^ nat \<lfloor>f_div A T dt\<rfloor>) (1, 1, 1),
      (euler_step A b dt ^^ nat \<lfloor>f_div A T dt\<rfloor>) (f_add A 1 eps, 1, 1),
      spec_renorm A (spec_separations A eps b T dt) (sep_at A eps b dt 0, 0, 0))"
  for b dt :: real
  by (simp only: fold_const length_py_range lyap_loop_init spec_separations_def)

lemma lyapunov_eps_spec:
  fixes b dt :: real
  assumes "dt \<noteq> 0"
  shows "lyapunov_eps A eps b T dt = Inr (spec_estimate A eps b T dt)"
proof -
  obtain r s c where acc: "spec_renorm A (spec_separations A eps b T dt) (sep_at A eps b dt 0, 0, 0) = (r, s, c)"
    by (cases "spec_renorm A (spec_separations A eps b T dt) (sep_at A eps b dt 0, 0, 0)") auto
  show ?thesis
    using assms by (simp add: lyapunov_eps_def lyap_fold_state spec_estimate_def acc)
qed

lemma spec_renorm_count:
  "spec_renorm A ds (r, s, c) = (r', s', c') \<Longrightarrow> c' = c + length (filter (\<lambda>d. 0 < d) ds)"
proof (induction ds arbitrary: r s c)
  case Nil then show ?case by simp
next
  case (Cons d ds)
  show ?case
  proof (cases "0 < d")
    case True
    with Cons.prems have "spec_renorm A ds (d, f_add A s (f_log A (f_div A d r)), c + 1) = (r', s', c')" by simp
    from Cons.IH [OF this] True show ?thesis by simp
  next
    case False
    with Cons.prems have "spec_renorm A ds (r, s, c) = (r', s', c')" by simp
    from Cons.IH [OF this] False show ?thesis by simp
  qed
qed

lemma spec_renorm_ref:
  "spec_renorm A ds (r, s, c) = (r', s', c') \<Longrightarrow>
     r' = (if filter (\<lambda>d. 0 < d) ds = [] then r else last (filter (\<lambda>d. 0 < d) ds))"
proof (induction ds arbitrary: r s c)
  case Nil then show ?case by simp
next
  case (Cons d ds)
  show ?case
  proof (cases "0 < d")
    case True
    with Cons.prems have "spec_renorm A ds (d, f_add A s (f_log A (f_div A d r)), c + 1) = (r', s', c')" by simp
    from Cons.IH [OF this] True show ?thesis by simp
  next
    case False
    with Cons.prems have "spec_renorm A ds (r, s, c) = (r', s', c')" by simp
    from Cons.IH [OF this] False show ?thesis by simp
  qed
qed

lemma spec_renorm_none:
  "filter (\<lambda>d. 0 < d) ds = [] \<Longrightarrow> spec_renorm A ds acc = acc"
proof (induction ds)
  case Nil show ?case by simp
next
  case (Cons d ds)
  obtain r s c where acc: "acc = (r, s, c)" by (cases acc) auto
  from Cons.prems have "\<not> 0 < d" and "filter (\<lambda>d. 0 < d) ds = []" by (auto split: if_splits)
  with Cons.IH show ?case unfolding acc by simp
qed

lemma separation_self: "zero_sane A \<Longrightarrow> separation A p p = 0"
  by (cases p) (simp add: separation_def zero_sane_def)

lemma sep_at_zero:
  fixes b dt :: real
  assumes "zero_sane A" shows "sep_at A 0 b dt j = 0"
proof -
  have "f_add A 1 0 = 1" using assms by (simp add: zero_sane_def)
  then show ?thesis by (simp add: sep_at_def separation_self [OF assms])
qed

lemma spec_estimate_zero:
  fixes b dt :: real
  assumes "zero_sane A" shows "spec_estimate A 0 b T dt = 0"
proof -
  have "filter (\<lambda>d. 0 < d) (spec_separations A 0 b T dt) = []"
    by (simp add: spec_separations_def sep_at_zero [OF assms])
  then have "spec_renorm A (spec_separations A 0 b T dt) (sep_at A 0 b dt 0, 0, 0) = (sep_at A 0 b dt 0, 0, 0)"
    by (rule spec_renorm_none)
  then show ?thesis by (simp add: spec_estimate_def)
qed

lemma zero_sane_exact: "zero_sane exact_arith"
  by (simp add: zero_sane_def exact_arith_def)

lemma zero_sane_ieee: "zero_sane (ieee_arith libm_sin libm_log)"
  by (simp add: zero_sane_def ieee_arith_def round_double_zero round_double_one)

text \<open>Evaluating the rounding: the doubles nearest to \<open>0.1\<close> and \<open>0.3\<close> and their rounded quotient.\<close>

lemma binade_eq:
  assumes "2 powr of_int k \<le> x" and "x < 2 powr of_int (k + 1)" and "- 1022 \<le> k"
  shows "binade x = k"
proof -
  have "0 < (2 :: real) powr of_int k" by simp
  then have pos: "0 < x" using assms(1) by linarith
  have "of_int k \<le> log 2 x" using assms(1) pos by (simp add: le_log_iff)
  moreover have "log 2 x < of_int k + 1" using assms(2) pos by (simp add: log_less_iff)
  ultimately have "\<lfloor>log 2 x\<rfloor> = k" by linarith
  then show ?thesis using pos assms(3) by (simp add: binade_def)
qed

lemma round_double_neg_binade:
  assumes "1 / 2 ^ m \<le> x" and "x < 2 / 2 ^ m" and "m \<le> 1022"
  shows "round_double x = of_int (round_even (x * 2 ^ (m + 52))) / 2 ^ (m + 52)"
proof -
  have p: "(2 :: real) powr - real m = 1 / 2 ^ m"
    by (simp add: powr_minus powr_realpow inverse_eq_divide)
  have "(2 :: real) powr (1 - real m) = 2 powr 1 / 2 powr real m" by (simp only: powr_diff)
  then have p1: "(2 :: real) powr (1 - real m) = 2 / 2 ^ m" by (simp add: powr_realpow)
  have b: "binade x = - int m"
    using assms by (intro binade_eq) (simp_all add: p p1)
  have g: "grid (- int m) = 1 / 2 ^ (m + 52)"
  proof -
    have "grid (- int m) = 2 powr (- real (m + 52))" by (simp add: grid_def)
    also have "\<dots> = 1 / 2 ^ (m + 52)" by (simp only: powr_minus powr_realpow inverse_eq_divide)
    finally show ?thesis .
  qed
  have "0 < 1 / (2 :: real) ^ m" by simp
  then have "x \<noteq> 0" using assms(1) by linarith
  then show ?thesis by (simp add: round_double_def b on_grid_def g)
qed

lemma round_double_pos_binade:
  assumes "2 ^ n \<le> x" and "x < 2 * 2 ^ n"
  shows "round_double x = of_int (round_even (x * 2 ^ 52 / 2 ^ n)) * 2 ^ n / 2 ^ 52"
proof -
  have p: "(2 :: real) powr real n = 2 ^ n" by (simp add: powr_realpow)
  have p1: "(2 :: real) powr (real n + 1) = 2 * 2 ^ n" by (simp add: powr_add powr_realpow)
  have b: "binade x = int n"
    using assms by (intro binade_eq) (simp_all add: p p1)
  have g: "grid (int n) = 2 ^ n / 2 ^ 52"
  proof -
    have "grid (int n) = 2 powr (real n - 52)" by (simp add: grid_def)
    also have "\<dots> = 2 powr real n / 2 powr 52" by (simp only: powr_diff)
    also have "\<dots> = 2 ^ n / 2 ^ 52" by (simp add: powr_realpow)
    finally show ?thesis .
  qed
  have "0 < (2 :: real) ^ n" by simp
  then have "x \<noteq> 0" using assms(1) by linarith
  then show ?thesis by (simp add: round_double_def b on_grid_def g)
qed

lemma double_tenth: "round_double (1 / 10) = 3602879701896397 / 2 ^ 55"
proof -
  have "round_double (1 / 10) = of_int (round_even ((1 / 10) * 2 ^ (4 + 52))) / 2 ^ (4 + 52)"
    by (rule round_double_neg_binade) simp_all
  also have "round_even ((1 / 10) * 2 ^ (4 + 52)) = 7205759403792794"
    by (simp add: round_even_def)
  finally show ?thesis by simp
qed

lemma double_three_tenths: "round_double (3 / 10) = 5404319552844595 / 2 ^ 54"
proof -
  have "round_double (3 / 10) = of_int (round_even ((3 / 10) * 2 ^ (2 + 52))) / 2 ^ (2 + 52)"
    by (rule round_double_neg_binade) simp_all
  also have "round_even ((3 / 10) * 2 ^ (2 + 52)) = 5404319552844595"
    by (simp add: round_even_def)
  finally show ?thesis by simp
qed

lemma double_quotient:
  "round_double ((5404319552844595 / 2 ^ 54) / (3602879701896397 / 2 ^ 55)) = 6755399441055743 / 2 ^ 51"
proof -
  let ?q = "(5404319552844595 / 2 ^ 54) / (3602879701896397 / 2 ^ 55) :: real"
  have "round_double ?q = of_int (round_even (?q * 2 ^ 52 / 2 ^ 1)) * 2 ^ 1 / 2 ^ 52"
    by (rule round_double_pos_binade) simp_all
  also have "round_even (?q * 2 ^ 52 / 2 ^ 1) = 6755399441055743"
    by (simp add: round_even_def)
  finally show ?thesis by simp
qed

lemma ieee_steps_example:
  "py_trunc (f_div (ieee_arith libm_sin libm_log) (round_double (3 / 10)) (round_double (1 / 10))) = 2"
proof -
  have "f_div (ieee_arith libm_sin libm_log) (round_double (3 / 10)) (round_double (1 / 10))
      = round_double (round_double (3 / 10) / round_double (1 / 10))"
    by (simp add: ieee_arith_def)
  also have "\<dots> = 6755399441055743 / 2 ^ 51"
    by (simp only: double_tenth double_three_tenths double_quotient)
  finally have "f_div (ieee_arith libm_sin libm_log) (round_double (3 / 10)) (round_double (1 / 10))
      = 6755399441055743 / 2 ^ 51" .
  then show ?thesis by (simp only: py_trunc_def) simp
qed

text \<open>
  Claim C5. On every arithmetic \<open>A\<close> (in particular on rounded double arithmetic) and for
  \<open>dt \<noteq> 0\<close>: the loop of the estimator runs \<open>floor (T / dt)\<close> times, where the quotient is the
  one the arithmetic computes; after it the two trajectories are that many forward Euler
  steps from \<open>(1, 1, 1)\<close> and \<open>(1 + eps, 1, 1)\<close>, and the reference separation, the running sum
  and the event count are those of the renormalisation over the separations of the steps:
  at each step whose separation \<open>d\<close> is positive, \<open>ln (d / d_ref)\<close> is added to the sum, \<open>d_ref\<close>
  becomes \<open>d\<close> and the count grows by one. The estimate is the sum divided by (count times
  \<open>dt\<close>) when the count is positive and \<open>0\<close> otherwise. With a zero initial perturbation the
  estimate is exactly \<open>0\<close>.
\<close>

theorem lyapunov_estimate_renormalised:
  fixes b dt :: real
  assumes "dt \<noteq> 0"
  shows "length (py_range (py_trunc (f_div A T dt))) = nat \<lfloor>f_div A T dt\<rfloor>
     \<and> fold (\<lambda>i. lyap_step A b dt) (py_range (py_trunc (f_div A T dt))) (lyap_init A eps) =
         ((euler_step A b dt ^^ nat \<lfloor>f_div A T dt\<rfloor>) (1, 1, 1),
          (euler_step A b dt ^^ nat \<lfloor>f_div A T dt\<rfloor>) (f_add A 1 eps, 1, 1),
          spec_renorm A (spec_separations A eps b T dt) (sep_at A eps b dt 0, 0, 0))
     \<and> lyapunov_eps A eps b T dt = Inr (spec_estimate A eps b T dt)
     \<and> lyapunov_estimate A b T dt = Inr (spec_estimate A (f_num A (1 / 10 ^ 8)) b T dt)
     \<and> (zero_sane A \<longrightarrow> lyapunov_eps A 0 b T dt = Inr 0)"
proof (intro conjI impI)
  show "length (py_range (py_trunc (f_div A T dt))) = nat \<lfloor>f_div A T dt\<rfloor>"
    by (rule length_py_range)
  show "fold (\<lambda>i. lyap_step A b dt) (py_range (py_trunc (f_div A T dt))) (lyap_init A eps) =
         ((euler_step A b dt ^^ nat \<lfloor>f_div A T dt\<rfloor>) (1, 1, 1),
          (euler_step A b dt ^^ nat \<lfloor>f_div A T dt\<rfloor>) (f_add A 1 eps, 1, 1),
          spec_renorm A (spec_separations A eps b T dt) (sep_at A eps b dt 0, 0, 0))"
    by (rule lyap_fold_state)
  show "lyapunov_eps A eps b T dt = Inr (spec_estimate A eps b T dt)"
    using assms by (rule lyapunov_eps_spec)
  show "lyapunov_estimate A b T dt = Inr (spec_estimate A (f_num A (1 / 10 ^ 8)) b T dt)"
    unfolding lyapunov_estimate_def using assms by (rule lyapunov_eps_spec)
  show "lyapunov_eps A 0 b T dt = Inr 0" if "zero_sane A"
    using lyapunov_eps_spec [OF assms, of A 0 b T] by (simp add: spec_estimate_zero [OF that])
qed

lemma double_tenth_nonzero: "round_double (1 / 10) \<noteq> 0"
  by (simp add: double_tenth)

theorem lyapunov_estimate_renormalised_witness:
  "\<forall>libm_sin libm_log.
     length (py_range (py_trunc (f_div (ieee_arith libm_sin libm_log)
                (round_double (3 / 10)) (round_double (1 / 10))))) = 2
     \<and> lyapunov_eps (ieee_arith libm_sin libm_log) 0
          (round_double (19 / 100)) (round_double (3 / 10)) (round_double (1 / 10)) = Inr 0
     \<and> lyapunov_estimate (ieee_arith libm_sin libm_log)
          (round_double (19 / 100)) (round_double (3 / 10)) (round_double (1 / 10))
        = Inr (spec_estimate (ieee_arith libm_sin libm_log) (round_double (1 / 10 ^ 8))
                 (round_double (19 / 100)) (round_double (3 / 10)) (round_double (1 / 10)))"
proof (intro allI)
  fix libm_sin libm_log :: "real \<Rightarrow> real"
  let ?A = "ieee_arith libm_sin libm_log"
  note T = lyapunov_estimate_renormalised [OF double_tenth_nonzero, of ?A "round_double (3 / 10)"
      "round_double (19 / 100)" 0]
  have n: "f_num ?A = round_double" by (simp add: ieee_arith_def)
  have 1: "length (py_range (py_trunc (f_div ?A (round_double (3 / 10)) (round_double (1 / 10))))) = 2"
    by (simp only: ieee_steps_example py_range_def) simp
  have 2: "lyapunov_eps ?A 0 (round_double (19 / 100)) (round_double (3 / 10)) (round_double (1 / 10)) = Inr 0"
    using T zero_sane_ieee [of libm_sin libm_log] by blast
  have 3: "lyapunov_estimate ?A (round_double (19 / 100)) (round_double (3 / 10)) (round_double (1 / 10))
        = Inr (spec_estimate ?A (f_num ?A (1 / 10 ^ 8))
                 (round_double (19 / 100)) (round_double (3 / 10)) (round_double (1 / 10)))"
    using T by blast
  show "length (py_range (py_trunc (f_div ?A (round_double (3 / 10)) (round_double (1 / 10))))) = 2
     \<and> lyapunov_eps ?A 0 (round_double (19 / 100)) (round_double (3 / 10)) (round_double (1 / 10)) = Inr 0
     \<and> lyapunov_estimate ?A (round_double (19 / 100)) (round_double (3 / 10)) (round_double (1 / 10))
        = Inr (spec_estimate ?A (round_double (1 / 10 ^ 8))
                 (round_double (19 / 100)) (round_double (3 / 10)) (round_double (1 / 10)))"
    using 1 2 3 unfolding n by (intro conjI)
qed

subsection \<open>Telescoping over exact reals\<close>

lemma spec_renorm_telescope:
  "0 < r \<Longrightarrow> spec_renorm exact_arith ds (r, s, c) = (r', s', c') \<Longrightarrow> 0 < r' \<and> s' = s + ln (r' / r)"
proof (induction ds arbitrary: r s c)
  case Nil then show ?case by simp
next
  case (Cons d ds)
  show ?case
  proof (cases "0 < d")
    case True
    with Cons.prems have run: "spec_renorm exact_arith ds (d, s + ln (d / r), c + 1) = (r', s', c')"
      by (simp add: exact_arith_def)
    from Cons.IH [OF True run] have pos: "0 < r'" and sum: "s' = s + ln (d / r) + ln (r' / d)" by simp_all
    have "ln (d / r) + ln (r' / d) = ln (r' / r)"
      using True pos Cons.prems(1) by (simp add: ln_div)
    then show ?thesis using pos sum by simp
  next
    case False
    with Cons.prems have "spec_renorm exact_arith ds (r, s, c) = (r', s', c')" by simp
    from Cons.IH [OF Cons.prems(1) this] show ?thesis .
  qed
qed

lemma sep_at_0_exact: "sep_at exact_arith eps b dt 0 = \<bar>eps\<bar>"
  for b dt :: real
  by (simp add: sep_at_def separation_def exact_arith_def power2_eq_square [symmetric])

text \<open>
  Claim C10. Over exact real arithmetic the running sum telescopes. For a non-zero initial
  perturbation and a run in which at least one renormalisation event fires, the loop ends
  with the reference separation equal to the separation \<open>d_last\<close> of the last fired event,
  the event count equal to the number of fired events, and the running sum equal to
  \<open>ln (d_last / d_initial)\<close>, where \<open>d_initial = \<bar>eps\<bar>\<close>. Hence the returned estimate is
  \<open>ln (d_last / d_initial) / (count * dt)\<close>.
\<close>

theorem lyapunov_sum_telescopes:
  fixes b dt :: real
  assumes "dt \<noteq> 0" and "eps \<noteq> 0"
    and "filter (\<lambda>d. 0 < d) (spec_separations exact_arith eps b T dt) \<noteq> []"
  shows "(\<forall>p1 p2 d0 d_sum n.
            fold (\<lambda>i. lyap_step exact_arith b dt) (py_range (py_trunc (T / dt))) (lyap_init exact_arith eps)
              = (p1, p2, d0, d_sum, n) \<longrightarrow>
              d0 = last (filter (\<lambda>d. 0 < d) (spec_separations exact_arith eps b T dt))
              \<and> n = length (filter (\<lambda>d. 0 < d) (spec_separations exact_arith eps b T dt))
              \<and> d_sum = ln (last (filter (\<lambda>d. 0 < d) (spec_separations exact_arith eps b T dt)) / \<bar>eps\<bar>))
     \<and> lyapunov_eps exact_arith eps b T dt =
         Inr (ln (last (filter (\<lambda>d. 0 < d) (spec_separations exact_arith eps b T dt)) / \<bar>eps\<bar>)
               / (real (length (filter (\<lambda>d. 0 < d) (spec_separations exact_arith eps b T dt))) * dt))"
proof -
  let ?fired = "filter (\<lambda>d. 0 < d) (spec_separations exact_arith eps b T dt)"
  obtain r s c where acc:
    "spec_renorm exact_arith (spec_separations exact_arith eps b T dt) (\<bar>eps\<bar>, 0, 0) = (r, s, c)"
    by (cases "spec_renorm exact_arith (spec_separations exact_arith eps b T dt) (\<bar>eps\<bar>, 0, 0)") auto
  have e: "0 < \<bar>eps\<bar>" using assms(2) by simp
  have c: "c = length ?fired" using spec_renorm_count [OF acc] by simp
  have r: "r = last ?fired" using spec_renorm_ref [OF acc] assms(3) by simp
  have s: "s = ln (r / \<bar>eps\<bar>)" using spec_renorm_telescope [OF e acc] by simp
  have cpos: "0 < c" using c assms(3) by simp
  have q: "f_div exact_arith T dt = T / dt" by (simp add: exact_arith_def)
  have loop: "fold (\<lambda>i. lyap_step exact_arith b dt) (py_range (py_trunc (T / dt))) (lyap_init exact_arith eps) =
     ((euler_step exact_arith b dt ^^ nat \<lfloor>T / dt\<rfloor>) (1, 1, 1),
      (euler_step exact_arith b dt ^^ nat \<lfloor>T / dt\<rfloor>) (f_add exact_arith 1 eps, 1, 1), r, s, c)"
    using lyap_fold_state [of exact_arith b dt T eps] by (simp only: q sep_at_0_exact acc)
  have est: "lyapunov_eps exact_arith eps b T dt = Inr (s / (real c * dt))"
    using assms(1) cpos by (simp add: lyapunov_eps_def q loop) (simp add: exact_arith_def)
  show ?thesis
    using loop est c r s by simp
qed

text \<open>A run of two steps in which both renormalisation events fire.\<close>

lemma euler_exact: "euler_step exact_arith 0 1 (x, y, z) = (x + sin y, y + sin z, z + sin x)"
  by (simp add: euler_step_def thomas_def exact_arith_def)

lemma separation_exact_pos:
  assumes "x2 - x1 \<noteq> 0" shows "0 < separation exact_arith (x1, y1, z1) (x2, y2, z2)"
proof -
  have "0 < (x2 - x1) * (x2 - x1)" using assms by (simp add: zero_less_mult_iff) linarith
  moreover have "0 \<le> (y2 - y1) * (y2 - y1)" and "0 \<le> (z2 - z1) * (z2 - z1)" by simp_all
  ultimately have "0 < (x2 - x1) * (x2 - x1) + (y2 - y1) * (y2 - y1) + (z2 - z1) * (z2 - z1)"
    by linarith
  then show ?thesis by (simp add: separation_def exact_arith_def)
qed

lemma f_add_exact: "f_add exact_arith x y = x + y"
  by (simp add: exact_arith_def)

lemma sep_step1_pos: "0 < sep_at exact_arith (1 / 10 ^ 8) 0 1 1"
  unfolding sep_at_def by (simp add: f_add_exact euler_exact separation_exact_pos)

lemma sep_step2_pos: "0 < sep_at exact_arith (1 / 10 ^ 8) 0 1 2"
  unfolding sep_at_def by (simp add: eval_nat_numeral f_add_exact euler_exact separation_exact_pos)

theorem lyapunov_sum_telescopes_witness:
  "filter (\<lambda>d. 0 < d) (spec_separations exact_arith (1 / 10 ^ 8) 0 2 1)
      = [sep_at exact_arith (1 / 10 ^ 8) 0 1 1, sep_at exact_arith (1 / 10 ^ 8) 0 1 2]
   \<and> lyapunov_estimate exact_arith 0 2 1
      = Inr (ln (sep_at exact_arith (1 / 10 ^ 8) 0 1 2 / (1 / 10 ^ 8)) / 2)"
proof -
  have seps: "spec_separations exact_arith (1 / 10 ^ 8) 0 2 1
      = [sep_at exact_arith (1 / 10 ^ 8) 0 1 1, sep_at exact_arith (1 / 10 ^ 8) 0 1 2]"
  proof -
    have "nat \<lfloor>f_div exact_arith 2 1\<rfloor> = 2" by (simp add: exact_arith_def)
    moreover have "[1..<2 + 1] = [1, 2 :: nat]" by (simp add: upt_rec)
    ultimately show ?thesis by (simp only: spec_separations_def list.map)
  qed
  have fired: "filter (\<lambda>d. 0 < d) (spec_separations exact_arith (1 / 10 ^ 8) 0 2 1)
      = [sep_at exact_arith (1 / 10 ^ 8) 0 1 1, sep_at exact_arith (1 / 10 ^ 8) 0 1 2]"
    unfolding seps using sep_step1_pos sep_step2_pos by simp
  have a: "(1 :: real) \<noteq> 0" and b: "(1 / 10 ^ 8 :: real) \<noteq> 0" by simp_all
  have c: "filter (\<lambda>d. 0 < d) (spec_separations exact_arith (1 / 10 ^ 8) 0 2 1) \<noteq> []"
    unfolding fired by simp
  have n: "f_num exact_arith (1 / 10 ^ 8) = 1 / 10 ^ 8" by (simp add: exact_arith_def)
  from lyapunov_sum_telescopes [OF a b c]
  have "lyapunov_eps exact_arith (1 / 10 ^ 8) 0 2 1 =
         Inr (ln (last (filter (\<lambda>d. 0 < d) (spec_separations exact_arith (1 / 10 ^ 8) 0 2 1)) / \<bar>1 / 10 ^ 8\<bar>)
               / (real (length (filter (\<lambda>d. 0 < d) (spec_separations exact_arith (1 / 10 ^ 8) 0 2 1))) * 1))"
    by (rule conjunct2)
  then have "lyapunov_estimate exact_arith 0 2 1
      = Inr (ln (sep_at exact_arith (1 / 10 ^ 8) 0 1 2 / (1 / 10 ^ 8)) / 2)"
    unfolding fired lyapunov_estimate_def n by simp
  with fired show ?thesis by (intro conjI)
qed

section \<open>Properties of the rhodonea model\<close>

lemma rhodonea_r_Fin:
  "rhodonea_k self = Fin k \<Longrightarrow> rhodonea_m self = Fin m \<Longrightarrow> rhodonea_phi self = Fin phi \<Longrightarrow>
   rhodonea_a self = Fin a \<Longrightarrow> rhodonea_r self (Fin theta) = Fin (a * cos (k * m * theta + phi))"
  by (simp add: rhodonea_r_def pf_mul_def pf_add_def pf_cos_def)

text \<open>
  Claim C2, as amended. The program evaluates two different rhodonea models. The function
  \<open>rhodonea\<close> of the analysis script, the one that is fitted to the (angle, radius) samples and
  used for the reported error, computes \<open>a * cos ((k / m) * theta + phi)\<close> for \<open>m \<noteq> 0\<close>. The
  per-configuration radius function \<open>rhodonea_r\<close> of the interface computes
  \<open>a * cos (k * m * theta + phi)\<close> on finite parameters, as its own documentation states.
\<close>

theorem rhodonea_two_models:
  "(m \<noteq> 0 \<longrightarrow> rhodonea theta k m phi a = Fin (a * cos ((k / m) * theta + phi)))
   \<and> (rhodonea_k self = Fin k \<and> rhodonea_m self = Fin m \<and> rhodonea_phi self = Fin phi
        \<and> rhodonea_a self = Fin a \<longrightarrow>
          rhodonea_r self (Fin theta) = Fin (a * cos (k * m * theta + phi)))"
  by (simp add: rhodonea_def rhodonea_r_Fin)

theorem rhodonea_two_models_witness:
  "rhodonea 1 1 2 0 1 = Fin (cos (1 / 2)) \<and> rhodonea_r example_config (Fin 1) = Fin (cos 2)"
  using rhodonea_two_models [of 2 1 1 0 1 example_config]
  by (simp add: example_config_def)

text \<open>
  The claim as stated fails: for \<open>k = 1\<close>, \<open>m = 2\<close>, \<open>phi = 0\<close>, \<open>a = 1\<close> and \<open>theta = 1\<close> the
  radius function of the configuration does not return \<open>a * cos ((k / m) * theta + phi)\<close>.
\<close>

lemma cos_half_pos: "0 < cos (1 / 2 :: real)"
proof -
  have "(1 / 2 :: real) < pi / 2" using pi_ge_two by simp
  then show ?thesis by (intro cos_gt_zero) simp_all
qed

theorem rhodonea_r_counterexample:
  "rhodonea_k example_config = Fin 1 \<and> rhodonea_m example_config = Fin 2
   \<and> rhodonea_phi example_config = Fin 0 \<and> rhodonea_a example_config = Fin 1
   \<and> rhodonea_r example_config (Fin 1) \<noteq> Fin (1 * cos ((1 / 2) * 1 + 0))"
proof -
  have r: "rhodonea_r example_config (Fin 1) = Fin (cos 2)"
    by (simp add: rhodonea_r_def example_config_def pf_mul_def pf_add_def pf_cos_def)
  have "cos (2 :: real) \<noteq> cos (1 / 2)"
    using cos_half_pos cos_two_less_zero by linarith
  then show ?thesis
    by (simp add: r) (simp add: example_config_def)
qed

section \<open>Properties of the structured export\<close>

text \<open>
  Claim C7. For every configuration record the exported document has exactly the field names
  and the nesting of the schema (\<open>export_schema\<close>: id, description, model with b, dt, steps,
  transient_steps and a seed of three entries, projection with plane and rotation (axis,
  angle_rad), rhodonea with k, m, phi, a and formula, metrics with E_flower, lambda_max,
  FI_computed and FI_reported, notes), and \<open>metrics.FI_computed\<close> is \<open>flower_index\<close> applied to
  the record's \<open>E_flower\<close> and \<open>lambda_max\<close>. The exported payload is the list of these
  documents, one per configuration.
\<close>

theorem to_js_config_schema:
  "json_shape (to_js_config self) = export_schema
   \<and> json_get (to_js_config self) [''metrics'', ''FI_computed'']
        = Some (JFloat (flower_index (E_flower self) (lambda_max self)))
   \<and> export_js_config configs = JList (map to_js_config configs)
   \<and> json_shape (export_js_config configs) = SList (replicate (length configs) export_schema)"
proof (intro conjI)
  show sh: "json_shape (to_js_config self) = export_schema" for self
    by (simp add: to_js_config_def export_schema_def seed_def json_opt_def split: option.splits)
  show "json_get (to_js_config self) [''metrics'', ''FI_computed'']
        = Some (JFloat (flower_index (E_flower self) (lambda_max self)))"
    by (simp add: to_js_config_def compute_fi_def)
  show "export_js_config configs = JList (map to_js_config configs)"
    by (simp add: export_js_config_def)
  show "json_shape (export_js_config configs) = SList (replicate (length configs) export_schema)"
    by (simp add: export_js_config_def sh map_replicate_const comp_def)
qed

theorem to_js_config_schema_witness:
  "json_get (to_js_config example_config) [''metrics'', ''FI_computed''] = Some (JFloat (Fin (1 / 2)))
   \<and> json_shape (export_js_config [example_config, example_config]) = SList [export_schema, export_schema]"
  using to_js_config_schema [of example_config "[example_config, example_config]"]
    flower_index_valid [of 1 0]
  by (simp add: example_config_def)

section \<open>Properties of loading\<close>

lemma load_rows_Inr:
  "load_rows B rows = Inr configs \<longleftrightarrow> map (make_config B) rows = map Inr configs"
proof (induction rows arbitrary: configs)
  case Nil show ?case by auto
next
  case (Cons row rest)
  show ?case
  proof (cases "make_config B row")
    case (Inl e) then show ?thesis by (cases configs) auto
  next
    case (Inr cfg)
    show ?thesis
    proof (cases "load_rows B rest")
      case (Inl e)
      have "map (make_config B) rest \<noteq> map Inr cs" for cs
        using Cons.IH [of cs] Inl by simp
      then show ?thesis using Inr Inl by (cases configs) auto
    next
      case r: (Inr cs)
      then have "map (make_config B) rest = map Inr cs" using Cons.IH by simp
      then show ?thesis using Inr r by (cases configs) (auto dest: map_inj_on [of Inr, OF _ inj_on_subset [OF inj_Inr]])
    qed
  qed
qed

lemma load_rows_Inl:
  "load_rows B rows = Inl e \<longleftrightarrow>
     (\<exists>pre row post. rows = pre @ row # post \<and> make_config B row = Inl e
        \<and> list_all (\<lambda>r. \<exists>cfg. make_config B r = Inr cfg) pre)"
proof (induction rows)
  case Nil show ?case by simp
next
  case (Cons row rest)
  show ?case
  proof (cases "make_config B row")
    case (Inl e')
    show ?thesis
    proof
      assume "load_rows B (row # rest) = Inl e"
      with Inl have "e' = e" by simp
      with Inl have "row # rest = [] @ row # rest \<and> make_config B row = Inl e
          \<and> list_all (\<lambda>r. \<exists>cfg. make_config B r = Inr cfg) []" by simp
      then show "\<exists>pre r post. row # rest = pre @ r # post \<and> make_config B r = Inl e
          \<and> list_all (\<lambda>r. \<exists>cfg. make_config B r = Inr cfg) pre" by blast
    next
      assume "\<exists>pre r post. row # rest = pre @ r # post \<and> make_config B r = Inl e
          \<and> list_all (\<lambda>r. \<exists>cfg. make_config B r = Inr cfg) pre"
      then obtain pre r post where d: "row # rest = pre @ r # post" "make_config B r = Inl e"
          "list_all (\<lambda>r. \<exists>cfg. make_config B r = Inr cfg) pre" by blast
      have "pre = []"
      proof (cases pre)
        case Nil then show ?thesis .
      next
        case (Cons a as)
        with d(1) have "a = row" by simp
        with d(3) Cons Inl show ?thesis by simp
      qed
      with d have "make_config B row = Inl e" by simp
      then show "load_rows B (row # rest) = Inl e" by simp
    qed
  next
    case (Inr cfg)
    have step: "load_rows B (row # rest) = Inl e \<longleftrightarrow> load_rows B rest = Inl e"
      using Inr by (cases "load_rows B rest") simp_all
    show ?thesis
    proof
      assume "load_rows B (row # rest) = Inl e"
      then have "load_rows B rest = Inl e" using step by simp
      then obtain pre r post where d: "rest = pre @ r # post" "make_config B r = Inl e"
          "list_all (\<lambda>r. \<exists>cfg. make_config B r = Inr cfg) pre" using Cons.IH by blast
      then have "row # rest = (row # pre) @ r # post \<and> make_config B r = Inl e
          \<and> list_all (\<lambda>r. \<exists>cfg. make_config B r = Inr cfg) (row # pre)" using Inr by simp
      then show "\<exists>pre r post. row # rest = pre @ r # post \<and> make_config B r = Inl e
          \<and> list_all (\<lambda>r. \<exists>cfg. make_config B r = Inr cfg) pre" by blast
    next
      assume "\<exists>pre r post. row # rest = pre @ r # post \<and> make_config B r = Inl e
          \<and> list_all (\<lambda>r. \<exists>cfg. make_config B r = Inr cfg) pre"
      then obtain pre r post where d: "row # rest = pre @ r # post" "make_config B r = Inl e"
          "list_all (\<lambda>r. \<exists>cfg. make_config B r = Inr cfg) pre" by blast
      have "pre \<noteq> []" using d(1,2) Inr by (cases pre) auto
      then obtain pre' where p: "pre = row # pre'" using d(1) by (cases pre) auto
      with d have "rest = pre' @ r # post \<and> make_config B r = Inl e
          \<and> list_all (\<lambda>r. \<exists>cfg. make_config B r = Inr cfg) pre'" by simp
      then have "load_rows B rest = Inl e" using Cons.IH by blast
      then show "load_rows B (row # rest) = Inl e" using step by simp
    qed
  qed
qed

text \<open>
  Claim C3, as amended. Loading is all or nothing. For a readable input, \<open>load_configs\<close>
  returns a list of configurations exactly when every row converts, and then it returns the
  configuration of each row, in order. It raises an error \<open>e\<close> exactly when some row raises \<open>e\<close>
  on conversion and all rows before it convert. So one row that cannot be converted makes
  the whole call raise, and no configuration is returned.
\<close>

theorem load_configs_all_or_nothing:
  assumes "fs csv_path = Some df"
  shows "(load_configs B fs csv_path = Inr configs \<longleftrightarrow>
            map (make_config B) (df_rows df) = map Inr configs)
     \<and> (load_configs B fs csv_path = Inl e \<longleftrightarrow>
            (\<exists>pre row post. df_rows df = pre @ row # post \<and> make_config B row = Inl e
               \<and> list_all (\<lambda>r. \<exists>cfg. make_config B r = Inr cfg) pre))
     \<and> (list_ex (\<lambda>row. \<exists>e'. make_config B row = Inl e') (df_rows df) \<longrightarrow>
            (\<exists>e'. load_configs B fs csv_path = Inl e'))"
proof -
  have lc: "load_configs B fs csv_path = load_rows B (df_rows df)"
    using assms by (simp add: load_configs_def read_csv_def)
  have 3: "\<exists>e'. load_rows B (df_rows df) = Inl e'"
    if "list_ex (\<lambda>row. \<exists>e'. make_config B row = Inl e') (df_rows df)"
  proof (cases "load_rows B (df_rows df)")
    case (Inl e') then show ?thesis by blast
  next
    case (Inr cs)
    then have m: "map (make_config B) (df_rows df) = map Inr cs" by (simp add: load_rows_Inr)
    from that obtain row e' where r: "row \<in> set (df_rows df)" "make_config B row = Inl e'"
      by (auto simp: list_ex_iff)
    then have "Inl e' \<in> set (map (make_config B) (df_rows df))" by force
    with m show ?thesis by auto
  qed
  show ?thesis unfolding lc using load_rows_Inr load_rows_Inl 3 by blast
qed

lemma make_config_example: "make_config B example_row = Inr example_config"
  by (simp add: make_config_def example_row_def example_config_def series_get_def opt_float_def)

theorem load_configs_all_or_nothing_witness:
  "\<forall>B. load_configs B
         [''in.csv'' \<mapsto> \<lparr>df_columns = map fst example_row, df_rows = [example_row, example_row]\<rparr>]
         ''in.csv'' = Inr [example_config, example_config]"
proof
  fix B
  let ?df = "\<lparr>df_columns = map fst example_row, df_rows = [example_row, example_row]\<rparr>"
  have f: "[''in.csv'' \<mapsto> ?df] ''in.csv'' = Some ?df" by simp
  show "load_configs B [''in.csv'' \<mapsto> ?df] ''in.csv'' = Inr [example_config, example_config]"
    using f load_configs_all_or_nothing
        [of "[''in.csv'' \<mapsto> ?df]" "''in.csv''" ?df B "[example_config, example_config]"]
    by (simp add: make_config_example)
qed

text \<open>
  The claim as stated fails: a batch of two rows, the first one well-formed and the second
  one with an empty \<open>steps\<close> cell (so that pandas reads the column as floats), makes
  \<open>load_configs\<close> raise \<^verbatim>\<open>ValueError\<close>; the configuration of the first row is not returned.
  This holds whatever Python's text conversions do.
\<close>

lemma make_config_float_steps:
  "make_config B (AList.update ''steps'' (PFloat (Fin 1000)) example_row) = Inr example_config"
  by (simp add: make_config_def example_row_def example_config_def series_get_def opt_float_def
        py_trunc_def)

lemma make_config_nan_steps:
  "make_config B (AList.update ''steps'' (PFloat NaN) example_row) = Inl ValueError"
  by (simp add: make_config_def example_row_def series_get_def opt_float_def)

theorem load_configs_abort_counterexample:
  "\<forall>B. make_config B (AList.update ''steps'' (PFloat (Fin 1000)) example_row) = Inr example_config
      \<and> load_configs B
          [''in.csv'' \<mapsto>
             \<lparr>df_columns = map fst example_row,
              df_rows = [AList.update ''steps'' (PFloat (Fin 1000)) example_row,
                         AList.update ''steps'' (PFloat NaN) example_row]\<rparr>]
          ''in.csv'' = Inl ValueError"
  by (simp add: load_configs_def read_csv_def make_config_float_steps make_config_nan_steps)

section \<open>Properties of the enrichment\<close>

lemma map2_same: "map2 f xs (map g xs) = map (\<lambda>x. f x (g x)) xs"
  by (induction xs) simp_all

lemma filter_update_other:
  "filter (\<lambda>kv. fst kv \<noteq> k) (AList.update k v al) = filter (\<lambda>kv. fst kv \<noteq> k) al"
  by (induction al) auto

lemma enrich_rows:
  "df_rows (enrich_frame B df) =
     map (\<lambda>row. AList.update ''FI_delta''
                  (PFloat (delta_of_row B (AList.update ''FI_computed'' (PFloat (fi_of_row B row)) row)))
                  (AList.update ''FI_computed'' (PFloat (fi_of_row B row)) row))
         (df_rows df)"
  by (simp add: enrich_frame_def Let_def set_column_def df_apply_def map2_same comp_def)

lemma enrich_columns:
  "df_columns (enrich_frame B df) =
     (let c1 = (if ''FI_computed'' \<in> set (df_columns df) then df_columns df
                else df_columns df @ [''FI_computed''])
      in if ''FI_delta'' \<in> set c1 then c1 else c1 @ [''FI_delta''])"
  by (simp add: enrich_frame_def Let_def set_column_def)

lemma delta_after_fi:
  "delta_of_row B (AList.update ''FI_computed'' (PFloat c) row) =
     (case raise_bind (series_item row ''FI_reported'') (py_float B) of
        Inl _ \<Rightarrow> NaN
      | Inr r \<Rightarrow> pf_abs (pf_sub r c))"
  by (simp add: delta_of_row_def series_item_def update_conv' split: sum.splits)

lemma delta_nan:
  "map_of row ''FI_reported'' = None \<or> map_of row ''FI_reported'' = Some (PFloat NaN) \<or> c = NaN \<Longrightarrow>
     (case raise_bind (series_item row ''FI_reported'') (py_float B) of
        Inl _ \<Rightarrow> NaN
      | Inr r \<Rightarrow> pf_abs (pf_sub r c)) = NaN"
  by (cases "raise_bind (series_item row ''FI_reported'') (py_float B)")
     (auto simp: series_item_def pf_abs_def pf_sub_def split: option.splits pyfloat.splits)

lemma fi_of_row_floats:
  "map_of row ''E_flower'' = Some (PFloat e) \<Longrightarrow> map_of row ''lambda_max'' = Some (PFloat l) \<Longrightarrow>
     fi_of_row B row = flower_index (Some e) (Some l)"
  by (simp add: fi_of_row_def series_item_def)

lemma update_keys_eq:
  "map fst (AList.update k v al) = (if k \<in> set (map fst al) then map fst al else map fst al @ [k])"
  by (simp add: update_keys)

lemma set_column_wf:
  assumes "wf_frame df"
  shows "wf_frame (set_column df key (df_apply f df))"
proof -
  have rows: "df_rows (set_column df key (df_apply f df))
      = map (\<lambda>row. AList.update key (PFloat (f row)) row) (df_rows df)"
    by (simp add: set_column_def df_apply_def map2_same)
  have cols: "df_columns (set_column df key (df_apply f df))
      = (if key \<in> set (df_columns df) then df_columns df else df_columns df @ [key])"
    by (simp add: set_column_def)
  have "map fst (AList.update key (PFloat (f row)) row)
      = (if key \<in> set (df_columns df) then df_columns df else df_columns df @ [key])"
    if "row \<in> set (df_rows df)" for row
  proof -
    from that assms have "map fst row = df_columns df" by (simp add: wf_frame_def list_all_iff)
    then show ?thesis by (simp only: update_keys_eq)
  qed
  then show ?thesis
    unfolding wf_frame_def list_all_iff rows cols by auto
qed

lemma enrich_wf: "wf_frame df \<Longrightarrow> wf_frame (enrich_frame B df)"
  by (simp add: enrich_frame_def Let_def set_column_wf)

lemma filter_update_two:
  "k = k1 \<or> k = k2 \<Longrightarrow>
     filter (\<lambda>kv. fst kv \<noteq> k1 \<and> fst kv \<noteq> k2) (AList.update k v al)
       = filter (\<lambda>kv. fst kv \<noteq> k1 \<and> fst kv \<noteq> k2) al"
  by (induction al) auto

lemma enrich_row_nth:
  "i < length (df_rows df) \<Longrightarrow>
     df_rows (enrich_frame B df) ! i =
       AList.update ''FI_delta''
         (PFloat (delta_of_row B (AList.update ''FI_computed'' (PFloat (fi_of_row B (df_rows df ! i))) (df_rows df ! i))))
         (AList.update ''FI_computed'' (PFloat (fi_of_row B (df_rows df ! i))) (df_rows df ! i))"
  by (simp add: enrich_rows)

lemma enrich_row_others:
  assumes "i < length (df_rows df)"
  shows "filter (\<lambda>kv. fst kv \<noteq> ''FI_computed'' \<and> fst kv \<noteq> ''FI_delta'') (df_rows (enrich_frame B df) ! i)
      = filter (\<lambda>kv. fst kv \<noteq> ''FI_computed'' \<and> fst kv \<noteq> ''FI_delta'') (df_rows df ! i)"
  unfolding enrich_row_nth [OF assms]
  by (simp only: filter_update_two [of "''FI_delta''" "''FI_computed''" "''FI_delta''"]
        filter_update_two [of "''FI_computed''" "''FI_computed''" "''FI_delta''"] simp_thms)

lemma enrich_row_lookup_other:
  assumes "i < length (df_rows df)" and "key \<noteq> ''FI_computed''" and "key \<noteq> ''FI_delta''"
  shows "map_of (df_rows (enrich_frame B df) ! i) key = map_of (df_rows df ! i) key"
  unfolding enrich_row_nth [OF assms(1)] using assms(2,3) by (simp add: update_conv')

lemma enrich_row_fi:
  assumes "i < length (df_rows df)"
  shows "map_of (df_rows (enrich_frame B df) ! i) ''FI_computed''
      = Some (PFloat (fi_of_row B (df_rows df ! i)))"
  unfolding enrich_row_nth [OF assms] by (simp add: update_conv')

lemma enrich_row_delta:
  assumes "i < length (df_rows df)"
  shows "map_of (df_rows (enrich_frame B df) ! i) ''FI_delta''
      = Some (PFloat (case raise_bind (series_item (df_rows df ! i) ''FI_reported'') (py_float B) of
                        Inl _ \<Rightarrow> NaN
                      | Inr r \<Rightarrow> pf_abs (pf_sub r (fi_of_row B (df_rows df ! i)))))"
  unfolding enrich_row_nth [OF assms] by (simp add: update_conv' delta_after_fi)

lemma enrich_cols_set:
  "set (df_columns (enrich_frame B df)) = set (df_columns df) \<union> {''FI_computed'', ''FI_delta''}"
  by (auto simp: enrich_columns Let_def)

lemma enrich_cols_filter:
  "filter (\<lambda>c. c \<noteq> ''FI_computed'' \<and> c \<noteq> ''FI_delta'') (df_columns (enrich_frame B df))
     = filter (\<lambda>c. c \<noteq> ''FI_computed'' \<and> c \<noteq> ''FI_delta'') (df_columns df)"
  by (simp add: enrich_columns Let_def)

text \<open>
  Claim C8, as amended. For a readable input, enrichment writes to the output path the frame
  \<open>enrich_frame B df\<close> and touches no other path; the input file is unchanged when the output
  path differs from the input path. The enriched frame has the rows of the input, in order.
  Its columns are those of the input with \<open>FI_computed\<close> and \<open>FI_delta\<close> added where the input
  lacks them (a column of that name in the input is replaced). Every cell of every other
  column is unchanged. In each row \<open>FI_computed\<close> is the combiner applied to the row's
  \<open>E_flower\<close> and \<open>lambda_max\<close>, and \<open>FI_delta\<close> is \<open>\<bar>FI_reported - FI_computed\<bar>\<close>, which is
  \<open>NaN\<close> whenever \<open>FI_reported\<close> is absent or empty or \<open>FI_computed\<close> is \<open>NaN\<close>.
\<close>

theorem enrich_frame_effect:
  assumes "fs csv_in = Some df"
  shows "enrich_csv_with_fi B fs csv_in csv_out = Inr (fs(csv_out \<mapsto> enrich_frame B df))
     \<and> (csv_out \<noteq> csv_in \<longrightarrow> (fs(csv_out \<mapsto> enrich_frame B df)) csv_in = Some df)
     \<and> length (df_rows (enrich_frame B df)) = length (df_rows df)
     \<and> set (df_columns (enrich_frame B df)) = set (df_columns df) \<union> {''FI_computed'', ''FI_delta''}
     \<and> filter (\<lambda>c. c \<noteq> ''FI_computed'' \<and> c \<noteq> ''FI_delta'') (df_columns (enrich_frame B df))
           = filter (\<lambda>c. c \<noteq> ''FI_computed'' \<and> c \<noteq> ''FI_delta'') (df_columns df)
     \<and> (wf_frame df \<longrightarrow> wf_frame (enrich_frame B df))
     \<and> (\<forall>i < length (df_rows df).
           filter (\<lambda>kv. fst kv \<noteq> ''FI_computed'' \<and> fst kv \<noteq> ''FI_delta'') (df_rows (enrich_frame B df) ! i)
              = filter (\<lambda>kv. fst kv \<noteq> ''FI_computed'' \<and> fst kv \<noteq> ''FI_delta'') (df_rows df ! i)
           \<and> (\<forall>key. key \<noteq> ''FI_computed'' \<and> key \<noteq> ''FI_delta'' \<longrightarrow>
                 map_of (df_rows (enrich_frame B df) ! i) key = map_of (df_rows df ! i) key)
           \<and> map_of (df_rows (enrich_frame B df) ! i) ''FI_computed''
                = Some (PFloat (fi_of_row B (df_rows df ! i)))
           \<and> (\<forall>e l. map_of (df_rows df ! i) ''E_flower'' = Some (PFloat e)
                    \<and> map_of (df_rows df ! i) ''lambda_max'' = Some (PFloat l) \<longrightarrow>
                 fi_of_row B (df_rows df ! i) = flower_index (Some e) (Some l))
           \<and> map_of (df_rows (enrich_frame B df) ! i) ''FI_delta''
                = Some (PFloat (case raise_bind (series_item (df_rows df ! i) ''FI_reported'') (py_float B) of
                                  Inl _ \<Rightarrow> NaN
                                | Inr r \<Rightarrow> pf_abs (pf_sub r (fi_of_row B (df_rows df ! i)))))
           \<and> (map_of (df_rows df ! i) ''FI_reported'' = None
                \<or> map_of (df_rows df ! i) ''FI_reported'' = Some (PFloat NaN)
                \<or> fi_of_row B (df_rows df ! i) = NaN \<longrightarrow>
                 map_of (df_rows (enrich_frame B df) ! i) ''FI_delta'' = Some (PFloat NaN)))"
proof -
  have 1: "enrich_csv_with_fi B fs csv_in csv_out = Inr (fs(csv_out \<mapsto> enrich_frame B df))"
    using assms by (simp add: enrich_csv_with_fi_def read_csv_def)
  have 2: "csv_out \<noteq> csv_in \<longrightarrow> (fs(csv_out \<mapsto> enrich_frame B df)) csv_in = Some df"
    using assms by simp
  have 3: "length (df_rows (enrich_frame B df)) = length (df_rows df)"
    by (simp add: enrich_rows)
  have 6: "wf_frame df \<longrightarrow> wf_frame (enrich_frame B df)"
    by (simp add: enrich_wf)
  have 7: "filter (\<lambda>kv. fst kv \<noteq> ''FI_computed'' \<and> fst kv \<noteq> ''FI_delta'') (df_rows (enrich_frame B df) ! i)
              = filter (\<lambda>kv. fst kv \<noteq> ''FI_computed'' \<and> fst kv \<noteq> ''FI_delta'') (df_rows df ! i)
           \<and> (\<forall>key. key \<noteq> ''FI_computed'' \<and> key \<noteq> ''FI_delta'' \<longrightarrow>
                 map_of (df_rows (enrich_frame B df) ! i) key = map_of (df_rows df ! i) key)
           \<and> map_of (df_rows (enrich_frame B df) ! i) ''FI_computed''
                = Some (PFloat (fi_of_row B (df_rows df ! i)))
           \<and> (\<forall>e l. map_of (df_rows df ! i) ''E_flower'' = Some (PFloat e)
                    \<and> map_of (df_rows df ! i) ''lambda_max'' = Some (PFloat l) \<longrightarrow>
                 fi_of_row B (df_rows df ! i) = flower_index (Some e) (Some l))
           \<and> map_of (df_rows (enrich_frame B df) ! i) ''FI_delta''
                = Some (PFloat (case raise_bind (series_item (df_rows df ! i) ''FI_reported'') (py_float B) of
                                  Inl _ \<Rightarrow> NaN
                                | Inr r \<Rightarrow> pf_abs (pf_sub r (fi_of_row B (df_rows df ! i)))))
           \<and> (map_of (df_rows df ! i) ''FI_reported'' = None
                \<or> map_of (df_rows df ! i) ''FI_reported'' = Some (PFloat NaN)
                \<or> fi_of_row B (df_rows df ! i) = NaN \<longrightarrow>
                 map_of (df_rows (enrich_frame B df) ! i) ''FI_delta'' = Some (PFloat NaN))"
    if i: "i < length (df_rows df)" for i
  proof (intro conjI allI impI)
    show "filter (\<lambda>kv. fst kv \<noteq> ''FI_computed'' \<and> fst kv \<noteq> ''FI_delta'') (df_rows (enrich_frame B df) ! i)
        = filter (\<lambda>kv. fst kv \<noteq> ''FI_computed'' \<and> fst kv \<noteq> ''FI_delta'') (df_rows df ! i)"
      by (rule enrich_row_others [OF i])
    show "map_of (df_rows (enrich_frame B df) ! i) key = map_of (df_rows df ! i) key"
      if "key \<noteq> ''FI_computed'' \<and> key \<noteq> ''FI_delta''" for key
      using that by (intro enrich_row_lookup_other [OF i]) simp_all
    show "map_of (df_rows (enrich_frame B df) ! i) ''FI_computed''
        = Some (PFloat (fi_of_row B (df_rows df ! i)))"
      by (rule enrich_row_fi [OF i])
    show "fi_of_row B (df_rows df ! i) = flower_index (Some e) (Some l)"
      if "map_of (df_rows df ! i) ''E_flower'' = Some (PFloat e)
          \<and> map_of (df_rows df ! i) ''lambda_max'' = Some (PFloat l)" for e l
      using that by (intro fi_of_row_floats) simp_all
    show "map_of (df_rows (enrich_frame B df) ! i) ''FI_delta''
        = Some (PFloat (case raise_bind (series_item (df_rows df ! i) ''FI_reported'') (py_float B) of
                          Inl _ \<Rightarrow> NaN
                        | Inr r \<Rightarrow> pf_abs (pf_sub r (fi_of_row B (df_rows df ! i)))))"
      by (rule enrich_row_delta [OF i])
    show "map_of (df_rows (enrich_frame B df) ! i) ''FI_delta'' = Some (PFloat NaN)"
      if "map_of (df_rows df ! i) ''FI_reported'' = None
          \<or> map_of (df_rows df ! i) ''FI_reported'' = Some (PFloat NaN)
          \<or> fi_of_row B (df_rows df ! i) = NaN"
      by (simp only: enrich_row_delta [OF i] delta_nan [OF that])
  qed
  from 7 have 8: "\<forall>i < length (df_rows df).
           filter (\<lambda>kv. fst kv \<noteq> ''FI_computed'' \<and> fst kv \<noteq> ''FI_delta'') (df_rows (enrich_frame B df) ! i)
              = filter (\<lambda>kv. fst kv \<noteq> ''FI_computed'' \<and> fst kv \<noteq> ''FI_delta'') (df_rows df ! i)
           \<and> (\<forall>key. key \<noteq> ''FI_computed'' \<and> key \<noteq> ''FI_delta'' \<longrightarrow>
                 map_of (df_rows (enrich_frame B df) ! i) key = map_of (df_rows df ! i) key)
           \<and> map_of (df_rows (enrich_frame B df) ! i) ''FI_computed''
                = Some (PFloat (fi_of_row B (df_rows df ! i)))
           \<and> (\<forall>e l. map_of (df_rows df ! i) ''E_flower'' = Some (PFloat e)
                    \<and> map_of (df_rows df ! i) ''lambda_max'' = Some (PFloat l) \<longrightarrow>
                 fi_of_row B (df_rows df ! i) = flower_index (Some e) (Some l))
           \<and> map_of (df_rows (enrich_frame B df) ! i) ''FI_delta''
                = Some (PFloat (case raise_bind (series_item (df_rows df ! i) ''FI_reported'') (py_float B) of
                                  Inl _ \<Rightarrow> NaN
                                | Inr r \<Rightarrow> pf_abs (pf_sub r (fi_of_row B (df_rows df ! i)))))
           \<and> (map_of (df_rows df ! i) ''FI_reported'' = None
                \<or> map_of (df_rows df ! i) ''FI_reported'' = Some (PFloat NaN)
                \<or> fi_of_row B (df_rows df ! i) = NaN \<longrightarrow>
                 map_of (df_rows (enrich_frame B df) ! i) ''FI_delta'' = Some (PFloat NaN))"
    by (intro allI impI)
  show ?thesis
    by (intro conjI) (rule 1 2 3 enrich_cols_set enrich_cols_filter 6 8)+
qed

lemma fi_half: "flower_index (Some (Fin 1)) (Some (Fin 0)) = Fin (1 / 2)"
  using flower_index_valid [of 1 0] by simp

theorem enrich_frame_effect_witness:
  "\<forall>B. enrich_csv_with_fi B
          [''in.csv'' \<mapsto> \<lparr>df_columns = map fst example_row, df_rows = [example_row]\<rparr>]
          ''in.csv'' ''out.csv''
        = Inr ([''in.csv'' \<mapsto> \<lparr>df_columns = map fst example_row, df_rows = [example_row]\<rparr>]
                (''out.csv'' \<mapsto>
                   enrich_frame B \<lparr>df_columns = map fst example_row, df_rows = [example_row]\<rparr>))
      \<and> map_of (df_rows (enrich_frame B \<lparr>df_columns = map fst example_row, df_rows = [example_row]\<rparr>) ! 0)
            ''FI_computed'' = Some (PFloat (Fin (1 / 2)))
      \<and> map_of (df_rows (enrich_frame B \<lparr>df_columns = map fst example_row, df_rows = [example_row]\<rparr>) ! 0)
            ''FI_delta'' = Some (PFloat NaN)"
proof
  fix B
  let ?df = "\<lparr>df_columns = map fst example_row, df_rows = [example_row]\<rparr>"
  let ?fs = "[''in.csv'' \<mapsto> ?df]"
  have f: "?fs ''in.csv'' = Some ?df" by simp
  note T = enrich_frame_effect [of ?fs "''in.csv''" ?df B "''out.csv''", OF f]
  have i: "0 < length (df_rows ?df)" by simp
  have E: "map_of (df_rows ?df ! 0) ''E_flower'' = Some (PFloat (Fin 1))
      \<and> map_of (df_rows ?df ! 0) ''lambda_max'' = Some (PFloat (Fin 0))"
    by (simp add: example_row_def)
  have R: "map_of (df_rows ?df ! 0) ''FI_reported'' = Some (PFloat NaN)"
    by (simp add: example_row_def)
  from T have 1: "enrich_csv_with_fi B ?fs ''in.csv'' ''out.csv'' = Inr (?fs(''out.csv'' \<mapsto> enrich_frame B ?df))"
    by (rule conjunct1)
  from T i have row: "map_of (df_rows (enrich_frame B ?df) ! 0) ''FI_computed''
                = Some (PFloat (fi_of_row B (df_rows ?df ! 0)))
           \<and> (\<forall>e l. map_of (df_rows ?df ! 0) ''E_flower'' = Some (PFloat e)
                    \<and> map_of (df_rows ?df ! 0) ''lambda_max'' = Some (PFloat l) \<longrightarrow>
                 fi_of_row B (df_rows ?df ! 0) = flower_index (Some e) (Some l))
           \<and> (map_of (df_rows ?df ! 0) ''FI_reported'' = None
                \<or> map_of (df_rows ?df ! 0) ''FI_reported'' = Some (PFloat NaN)
                \<or> fi_of_row B (df_rows ?df ! 0) = NaN \<longrightarrow>
                 map_of (df_rows (enrich_frame B ?df) ! 0) ''FI_delta'' = Some (PFloat NaN))"
    by blast
  from row E have "fi_of_row B (df_rows ?df ! 0) = flower_index (Some (Fin 1)) (Some (Fin 0))"
    by blast
  then have fi: "fi_of_row B (df_rows ?df ! 0) = Fin (1 / 2)"
    by (simp only: fi_half)
  from row fi have 2: "map_of (df_rows (enrich_frame B ?df) ! 0) ''FI_computed'' = Some (PFloat (Fin (1 / 2)))"
    by simp
  from row R have 3: "map_of (df_rows (enrich_frame B ?df) ! 0) ''FI_delta'' = Some (PFloat NaN)"
    by blast
  show "enrich_csv_with_fi B ?fs ''in.csv'' ''out.csv'' = Inr (?fs(''out.csv'' \<mapsto> enrich_frame B ?df))
      \<and> map_of (df_rows (enrich_frame B ?df) ! 0) ''FI_computed'' = Some (PFloat (Fin (1 / 2)))
      \<and> map_of (df_rows (enrich_frame B ?df) ! 0) ''FI_delta'' = Some (PFloat NaN)"
    using 1 2 3 by (intro conjI)
qed

text \<open>
  The claim as stated fails. An input table that already has a column \<open>FI_computed\<close> gets
  that column overwritten (the stored value \<open>5\<close> becomes \<open>1/2\<close>) and only one column is
  added; and when the output path is the input path, the input file itself is replaced by
  the enriched table.
\<close>

lemma fi_of_row_example:
  "fi_of_row B [(''E_flower'', PFloat (Fin 1)), (''lambda_max'', PFloat (Fin 0)),
                (''FI_reported'', PFloat (Fin (1 / 2))), (''FI_computed'', PFloat (Fin 5))] = Fin (1 / 2)"
  by (simp add: fi_of_row_def series_item_def fi_half)

lemma delta_of_row_example:
  "delta_of_row B [(''E_flower'', PFloat (Fin 1)), (''lambda_max'', PFloat (Fin 0)),
                   (''FI_reported'', PFloat (Fin (1 / 2))), (''FI_computed'', PFloat (Fin (1 / 2)))] = Fin 0"
  by (simp add: delta_of_row_def series_item_def pf_abs_def pf_sub_def)

theorem enrich_overwrites_counterexample:
  "\<forall>B. enrich_frame B
          \<lparr>df_columns = [''E_flower'', ''lambda_max'', ''FI_reported'', ''FI_computed''],
           df_rows = [[(''E_flower'', PFloat (Fin 1)), (''lambda_max'', PFloat (Fin 0)),
                       (''FI_reported'', PFloat (Fin (1 / 2))), (''FI_computed'', PFloat (Fin 5))]]\<rparr>
        = \<lparr>df_columns = [''E_flower'', ''lambda_max'', ''FI_reported'', ''FI_computed'', ''FI_delta''],
           df_rows = [[(''E_flower'', PFloat (Fin 1)), (''lambda_max'', PFloat (Fin 0)),
                       (''FI_reported'', PFloat (Fin (1 / 2))), (''FI_computed'', PFloat (Fin (1 / 2))),
                       (''FI_delta'', PFloat (Fin 0))]]\<rparr>
      \<and> enrich_csv_with_fi B
          [''t.csv'' \<mapsto>
            \<lparr>df_columns = [''E_flower'', ''lambda_max'', ''FI_reported'', ''FI_computed''],
             df_rows = [[(''E_flower'', PFloat (Fin 1)), (''lambda_max'', PFloat (Fin 0)),
                         (''FI_reported'', PFloat (Fin (1 / 2))), (''FI_computed'', PFloat (Fin 5))]]\<rparr>]
          ''t.csv'' ''t.csv''
        = Inr [''t.csv'' \<mapsto>
            \<lparr>df_columns = [''E_flower'', ''lambda_max'', ''FI_reported'', ''FI_computed'', ''FI_delta''],
             df_rows = [[(''E_flower'', PFloat (Fin 1)), (''lambda_max'', PFloat (Fin 0)),
                         (''FI_reported'', PFloat (Fin (1 / 2))), (''FI_computed'', PFloat (Fin (1 / 2))),
                         (''FI_delta'', PFloat (Fin 0))]]\<rparr>]"
proof
  fix B
  let ?df0 = "\<lparr>df_columns = [''E_flower'', ''lambda_max'', ''FI_reported'', ''FI_computed''],
           df_rows = [[(''E_flower'', PFloat (Fin 1)), (''lambda_max'', PFloat (Fin 0)),
                       (''FI_reported'', PFloat (Fin (1 / 2))), (''FI_computed'', PFloat (Fin 5))]]\<rparr>"
  let ?df1 = "\<lparr>df_columns = [''E_flower'', ''lambda_max'', ''FI_reported'', ''FI_computed'', ''FI_delta''],
           df_rows = [[(''E_flower'', PFloat (Fin 1)), (''lambda_max'', PFloat (Fin 0)),
                       (''FI_reported'', PFloat (Fin (1 / 2))), (''FI_computed'', PFloat (Fin (1 / 2))),
                       (''FI_delta'', PFloat (Fin 0))]]\<rparr>"
  have e: "enrich_frame B ?df0 = ?df1"
    by (simp add: enrich_frame_def Let_def set_column_def df_apply_def fi_of_row_example
          delta_of_row_example)
  have w: "enrich_csv_with_fi B [''t.csv'' \<mapsto> ?df0] ''t.csv'' ''t.csv'' = Inr [''t.csv'' \<mapsto> ?df1]"
    by (simp add: enrich_csv_with_fi_def read_csv_def e)
  show "enrich_frame B ?df0 = ?df1
      \<and> enrich_csv_with_fi B [''t.csv'' \<mapsto> ?df0] ''t.csv'' ''t.csv'' = Inr [''t.csv'' \<mapsto> ?df1]"
    using e w by (intro conjI)
qed

section \<open>The rhodonea fit: index subset and radial error\<close>

subsection \<open>Double rounding is a rounding\<close>

lemma binade_lower_normal:
  assumes "2 powr (- 1022) \<le> x" shows "2 powr of_int (binade x) \<le> x"
proof -
  have "0 < (2 :: real) powr (- 1022)" by simp
  then have pos: "0 < x" using assms by linarith
  have "- 1022 \<le> log 2 x" using assms pos by (simp add: le_log_iff)
  then have "- 1022 \<le> \<lfloor>log 2 x\<rfloor>" by linarith
  then have "binade x = \<lfloor>log 2 x\<rfloor>" using pos by (simp add: binade_def)
  then have "of_int (binade x) \<le> log 2 x" by simp
  then show ?thesis using pos by (simp add: le_log_iff)
qed

lemma round_double_rel_upper:
  assumes "2 powr (- 1022) \<le> x" shows "round_double x \<le> x + x / 2 ^ 53"
proof -
  have "0 < (2 :: real) powr (- 1022)" by simp
  then have pos: "0 < x" using assms by linarith
  let ?u = "grid (binade x)"
  have u: "?u = 2 powr of_int (binade x) / 2 ^ 52"
  proof -
    have "?u = 2 powr (of_int (binade x) - 52)" by (simp add: grid_def)
    also have "\<dots> = 2 powr of_int (binade x) / 2 powr 52" by (simp only: powr_diff)
    finally show ?thesis by simp
  qed
  have ule: "?u \<le> x / 2 ^ 52"
    unfolding u using binade_lower_normal [OF assms] by (simp add: divide_right_mono)
  have "of_int (round_even (x / ?u)) \<le> x / ?u + 1 / 2" using round_even_bounds [of "x / ?u"] by simp
  then have "of_int (round_even (x / ?u)) * ?u \<le> (x / ?u + 1 / 2) * ?u"
    using grid_pos [of "binade x"] by (simp add: mult_right_mono)
  also have "\<dots> = x + ?u / 2" using grid_pos [of "binade x"] by (simp add: field_simps)
  also have "\<dots> \<le> x + (x / 2 ^ 52) / 2" using ule by simp
  also have "\<dots> = x + x / 2 ^ 53" by simp
  finally show ?thesis using pos by (simp add: round_double_def on_grid_def)
qed

lemma round_double_rel_lower:
  assumes "2 powr (- 1022) \<le> x" shows "x - x / 2 ^ 53 \<le> round_double x"
proof -
  have "0 < (2 :: real) powr (- 1022)" by simp
  then have pos: "0 < x" using assms by linarith
  let ?u = "grid (binade x)"
  have u: "?u = 2 powr of_int (binade x) / 2 ^ 52"
  proof -
    have "?u = 2 powr (of_int (binade x) - 52)" by (simp add: grid_def)
    also have "\<dots> = 2 powr of_int (binade x) / 2 powr 52" by (simp only: powr_diff)
    finally show ?thesis by simp
  qed
  have ule: "?u \<le> x / 2 ^ 52"
    unfolding u using binade_lower_normal [OF assms] by (simp add: divide_right_mono)
  have "x - x / 2 ^ 53 = x - (x / 2 ^ 52) / 2" by simp
  also have "\<dots> \<le> x - ?u / 2" using ule by simp
  also have "\<dots> = (x / ?u - 1 / 2) * ?u" using grid_pos [of "binade x"] by (simp add: field_simps)
  also have "\<dots> \<le> of_int (round_even (x / ?u)) * ?u"
    using round_even_bounds [of "x / ?u"] grid_pos [of "binade x"] by (intro mult_right_mono) simp_all
  finally show ?thesis using pos by (simp add: round_double_def on_grid_def)
qed

lemma round_double_nat:
  assumes "n < 2 ^ 53" shows "round_double (real n) = real n"
proof (cases "n = 0")
  case True then show ?thesis by (simp add: round_double_zero)
next
  case False
  then have pos: "0 < real n" and ge1: "1 \<le> real n" by simp_all
  let ?k = "binade (real n)"
  have lg0: "0 \<le> log 2 (real n)" using ge1 by simp
  then have fl0: "0 \<le> \<lfloor>log 2 (real n)\<rfloor>" by simp
  have "\<bar>real n\<bar> = real n" by simp
  then have "?k = max \<lfloor>log 2 (real n)\<rfloor> (- 1022)" by (simp only: binade_def)
  also have "\<dots> = \<lfloor>log 2 (real n)\<rfloor>" using fl0 by linarith
  finally have k: "?k = \<lfloor>log 2 (real n)\<rfloor>" .
  have k0: "0 \<le> ?k" using lg0 k by simp
  have "real n < 2 ^ 53" using assms by (metis of_nat_less_iff of_nat_numeral of_nat_power)
  then have "log 2 (real n) < 53" using pos by (simp add: log_less_iff powr_realpow)
  then have k52: "?k \<le> 52" using k by linarith
  define e where "e = nat (52 - ?k)"
  have e: "real e = 52 - of_int ?k" using k52 by (simp add: e_def)
  have g: "grid ?k = 1 / 2 ^ e"
  proof -
    have "grid ?k = 2 powr (- real e)" by (simp add: grid_def e)
    also have "\<dots> = 1 / 2 ^ e" by (simp only: powr_minus powr_realpow inverse_eq_divide)
    finally show ?thesis .
  qed
  have "real n / grid ?k = of_int (int n * 2 ^ e)" by (simp add: g)
  then have "round_even (real n / grid ?k) = int n * 2 ^ e" by (simp only: round_even_int)
  then have "on_grid ?k (real n) = of_int (int n * 2 ^ e) * (1 / 2 ^ e)"
    by (simp only: on_grid_def g)
  also have "\<dots> = real n" by simp
  finally show ?thesis using False by (simp add: round_double_def)
qed

lemma rounding_ok_double: "rounding_ok round_double"
  unfolding rounding_ok_def
  using round_double_mono round_double_nat round_double_rel_upper round_double_rel_lower by blast

lemma rounding_ok_id: "rounding_ok (\<lambda>x. x)"
proof -
  have "0 \<le> x" if "2 powr (- 1022) \<le> x" for x :: real
  proof -
    have "0 < (2 :: real) powr (- 1022)" by simp
    with that show ?thesis by linarith
  qed
  then show ?thesis by (simp add: rounding_ok_def)
qed

lemma rounded_by_ieee: "rounded_by round_double (ieee_arith libm_sin libm_log)"
  by (simp add: rounded_by_def ieee_arith_def)

lemma rounded_by_exact: "rounded_by (\<lambda>x. x) exact_arith"
  by (simp add: rounded_by_def exact_arith_def)

subsection \<open>The index subset\<close>

lemma small_normal: "2 powr (- 1022) \<le> (1 / 7999 :: real)"
proof -
  have "(2 :: real) powr (- 1022) \<le> 2 powr (- 13)" by (intro powr_mono) simp_all
  also have "\<dots> = 1 / 2 ^ 13" by (simp add: powr_minus inverse_eq_divide)
  also have "\<dots> \<le> 1 / 7999" by simp
  finally show ?thesis .
qed

lemma rounding_zero: "rounding_ok r \<Longrightarrow> r 0 = 0"
proof -
  assume "rounding_ok r"
  then have "r (real 0) = real 0" unfolding rounding_ok_def by (metis zero_less_numeral zero_less_power)
  then show ?thesis by simp
qed

lemma rounding_mono: "rounding_ok r \<Longrightarrow> 0 \<le> x \<Longrightarrow> x \<le> y \<Longrightarrow> r x \<le> r y"
  unfolding rounding_ok_def by blast

lemma rounding_nat: "rounding_ok r \<Longrightarrow> n < 2 ^ 53 \<Longrightarrow> r (real n) = real n"
  unfolding rounding_ok_def by blast

lemma rounding_upper: "rounding_ok r \<Longrightarrow> 2 powr (- 1022) \<le> x \<Longrightarrow> r x \<le> x + x / 2 ^ 53"
  unfolding rounding_ok_def by blast

lemma rounding_lower: "rounding_ok r \<Longrightarrow> 2 powr (- 1022) \<le> x \<Longrightarrow> x - x / 2 ^ 53 \<le> r x"
  unfolding rounding_ok_def by blast

text \<open>The step of the index grid and the values before truncation.\<close>

lemma step_bounds:
  assumes ok: "rounding_ok r" and n: "n < 2 ^ 53"
  shows "0 \<le> r (real n / 7999) \<and> 7998 * r (real n / 7999) \<le> real n"
proof (cases "n = 0")
  case True then show ?thesis by (simp add: rounding_zero [OF ok])
next
  case False
  then have n1: "1 \<le> real n" by simp
  let ?q = "real n / 7999"
  have q0: "0 \<le> ?q" by simp
  have "r 0 \<le> r ?q" using rounding_mono [of r 0 ?q] ok q0 by simp
  then have lo: "0 \<le> r ?q" by (simp add: rounding_zero [OF ok])
  have "1 / 7999 \<le> ?q" using n1 by (simp add: divide_right_mono)
  then have "2 powr (- 1022) \<le> ?q" using small_normal by linarith
  then have up: "r ?q \<le> ?q + ?q / 2 ^ 53" using ok by (intro rounding_upper)
  have "7998 * (?q + ?q / 2 ^ 53) \<le> real n" using n1 by (simp add: field_simps)
  moreover have "7998 * r ?q \<le> 7998 * (?q + ?q / 2 ^ 53)" using up by (intro mult_left_mono) simp_all
  ultimately have "7998 * r ?q \<le> real n" by (rule order_trans [rotated])
  with lo show ?thesis by simp
qed

lemma value_bounds:
  assumes ok: "rounding_ok r" and n: "n < 2 ^ 53" and i: "i \<le> 7998"
  shows "0 \<le> r (r (real i * r (real n / 7999)))
     \<and> r (r (real i * r (real n / 7999))) \<le> real n"
proof -
  let ?st = "r (real n / 7999)"
  have st: "0 \<le> ?st" "7998 * ?st \<le> real n" using step_bounds [OF ok n] by simp_all
  have p0: "0 \<le> real i * ?st" using st(1) by simp
  have "real i * ?st \<le> 7998 * ?st" using i st(1) by (intro mult_right_mono) simp_all
  then have p1: "real i * ?st \<le> real n" using st(2) by linarith
  have a0: "0 \<le> r (real i * ?st)"
    using rounding_mono [of r 0 "real i * ?st"] ok p0 by (simp add: rounding_zero [OF ok])
  have a1: "r (real i * ?st) \<le> real n"
    using rounding_mono [OF ok p0 p1] by (simp add: rounding_nat [OF ok n])
  have b0: "0 \<le> r (r (real i * ?st))"
    using rounding_mono [of r 0 "r (real i * ?st)"] ok a0 by (simp add: rounding_zero [OF ok])
  have b1: "r (r (real i * ?st)) \<le> real n"
    using rounding_mono [of r "r (real i * ?st)" "real n"] ok a0 a1
    by (simp add: rounding_nat [OF ok n])
  from b0 b1 show ?thesis by simp
qed

lemma value_mono:
  assumes ok: "rounding_ok r" and n: "n < 2 ^ 53" and ij: "i \<le> j"
  shows "r (r (real i * r (real n / 7999))) \<le> r (r (real j * r (real n / 7999)))"
proof -
  let ?st = "r (real n / 7999)"
  have st: "0 \<le> ?st" using step_bounds [OF ok n] by simp
  have p0: "0 \<le> real i * ?st" using st by simp
  have p: "real i * ?st \<le> real j * ?st" using ij st by (intro mult_right_mono) simp_all
  have a0: "0 \<le> r (real i * ?st)"
    using rounding_mono [of r 0 "real i * ?st"] ok p0 by (simp add: rounding_zero [OF ok])
  have a: "r (real i * ?st) \<le> r (real j * ?st)" using ok p0 p by (rule rounding_mono)
  show ?thesis using rounding_mono [of r "r (real i * ?st)" "r (real j * ?st)"] ok a0 a by simp
qed

lemma value_zero:
  assumes ok: "rounding_ok r" shows "r (r (real 0 * st)) = 0"
  by (simp add: rounding_zero [OF ok])

lemma linspace_indices:
  assumes ok: "rounding_ok r" and A: "rounded_by r A" and n: "n < 2 ^ 53"
  shows "map py_trunc (linspace A 0 (real n) 8000) = map (index_at r n) [0..<8000]"
proof -
  have sub: "r (real n) = real n" by (simp add: rounding_nat [OF ok n])
  have ops: "f_add A = (\<lambda>x y. r (x + y))" "f_sub A = (\<lambda>x y. r (x - y))"
    "f_mul A = (\<lambda>x y. r (x * y))" "f_div A = (\<lambda>x y. r (x / y))"
    using A by (simp_all add: rounded_by_def)
  have lin: "linspace A 0 (real n) 8000 =
      map (\<lambda>i. r (r (real i * r (real n / 7999)))) [0..<7999] @ [real n]"
    by (simp add: linspace_def ops Let_def sub)
  have tr: "py_trunc (r (r (real i * r (real n / 7999)))) = index_at r n i" if "i < 7999" for i
  proof -
    have "i \<le> 7998" using that by simp
    from value_bounds [OF ok n this] that show ?thesis by (simp add: py_trunc_def index_at_def)
  qed
  have last: "py_trunc (real n) = index_at r n 7999" by (simp add: py_trunc_def index_at_def)
  have up: "[0..<8000] = [0..<7999] @ [7999]"
  proof -
    have "[0..<Suc 7999] = [0..<7999] @ [7999]" by (rule upt_Suc_append) simp
    then show ?thesis by simp
  qed
  have "map py_trunc (linspace A 0 (real n) 8000)
      = map (\<lambda>i. py_trunc (r (r (real i * r (real n / 7999))))) [0..<7999] @ [py_trunc (real n)]"
    by (simp only: lin map_append map_map o_def list.map)
  also have "map (\<lambda>i. py_trunc (r (r (real i * r (real n / 7999))))) [0..<7999]
      = map (index_at r n) [0..<7999]"
    by (rule map_cong) (simp_all add: tr)
  finally show ?thesis by (simp only: last up map_append list.map)
qed

lemma index_at_range:
  assumes ok: "rounding_ok r" and n: "n < 2 ^ 53"
  shows "0 \<le> index_at r n j \<and> index_at r n j \<le> int n"
proof (cases "j < 7999")
  case True
  then have "j \<le> 7998" by simp
  from value_bounds [OF ok n this]
  have "0 \<le> r (r (real j * r (real n / 7999)))" "r (r (real j * r (real n / 7999))) \<le> real n"
    by simp_all
  then have "0 \<le> \<lfloor>r (r (real j * r (real n / 7999)))\<rfloor>"
    and "\<lfloor>r (r (real j * r (real n / 7999)))\<rfloor> \<le> int n"
    by (simp, linarith)
  then show ?thesis using True by (simp add: index_at_def)
next
  case False then show ?thesis by (simp add: index_at_def)
qed

lemma index_at_mono:
  assumes ok: "rounding_ok r" and n: "n < 2 ^ 53" and ij: "i \<le> j"
  shows "index_at r n i \<le> index_at r n j"
proof (cases "j < 7999")
  case True
  with ij have "i < 7999" by simp
  with True show ?thesis using value_mono [OF ok n ij] by (simp add: index_at_def floor_mono)
next
  case False
  then show ?thesis using index_at_range [OF ok n, of i] by (simp add: index_at_def)
qed

lemma index_at_first: "rounding_ok r \<Longrightarrow> index_at r n 0 = 0"
  by (simp add: index_at_def rounding_zero)

lemma index_at_last: "index_at r n 7999 = int n"
  by (simp add: index_at_def)

lemma index_at_exact: "index_at (\<lambda>x. x) n j = \<lfloor>real j * real n / 7999\<rfloor>" if "j < 8000"
proof (cases "j < 7999")
  case True then show ?thesis by (simp add: index_at_def)
next
  case False
  with that have "j = 7999" by simp
  then show ?thesis by (simp add: index_at_def)
qed


text \<open>Three roundings in a row stay within one unit of the exact position.\<close>

lemma cube_up: fixes u :: real assumes "0 \<le> u" and "u \<le> 1 / 8" shows "(1 + u) ^ 3 \<le> 1 + 4 * u"
proof -
  have s: "u * u \<le> u * (1 / 8)" using assms by (intro mult_left_mono) simp_all
  have "u * u * u \<le> u * (1 / 8) * u" using s assms(1) by (intro mult_right_mono) simp_all
  also have "\<dots> = (u * u) * (1 / 8)" by simp
  also have "\<dots> \<le> (u * (1 / 8)) * (1 / 8)" using s by (intro mult_right_mono) simp_all
  finally have c: "u * u * u \<le> u / 64" by simp
  have "(1 + u) ^ 3 = 1 + 3 * u + 3 * (u * u) + u * u * u"
    by (simp add: power3_eq_cube algebra_simps)
  then show ?thesis using s c assms(1) by linarith
qed

lemma cube_down: fixes u :: real assumes "0 \<le> u" and "u \<le> 1 / 8" shows "1 - 3 * u \<le> (1 - u) ^ 3"
proof -
  have s: "0 \<le> u * u" using assms(1) by simp
  have "u * u * u \<le> u * u * (1 / 8)" using s assms(2) by (intro mult_left_mono) simp_all
  then have c: "u * u * u \<le> 3 * (u * u)" using s by linarith
  have "(1 - u) ^ 3 = 1 - 3 * u + 3 * (u * u) - u * u * u"
    by (simp add: power3_eq_cube algebra_simps)
  then show ?thesis using c by linarith
qed

lemma three_roundings:
  fixes x st a v u :: real
  assumes u: "0 \<le> u" "u \<le> 1 / 8" and j: "0 \<le> j" and q: "0 \<le> q"
    and st: "q * (1 - u) \<le> st" "st \<le> q * (1 + u)"
    and a: "(j * st) * (1 - u) \<le> a" "a \<le> (j * st) * (1 + u)"
    and v: "a * (1 - u) \<le> v" "v \<le> a * (1 + u)"
  shows "(j * q) * (1 - 3 * u) \<le> v \<and> v \<le> (j * q) * (1 + 4 * u)"
proof -
  have m: "0 \<le> 1 - u" and p: "0 \<le> 1 + u" using u by simp_all
  have x: "0 \<le> j * q" using j q by simp
  have up1: "j * st \<le> (j * q) * (1 + u)"
    using mult_left_mono [OF st(2) j] by (simp add: mult.assoc)
  have up2: "a \<le> (j * q) * (1 + u) * (1 + u)"
    using a(2) mult_right_mono [OF up1 p] by linarith
  have up3: "v \<le> (j * q) * (1 + u) * (1 + u) * (1 + u)"
    using v(2) mult_right_mono [OF up2 p] by linarith
  have "(j * q) * (1 + u) * (1 + u) * (1 + u) = (j * q) * (1 + u) ^ 3"
    by (simp add: power3_eq_cube mult.assoc)
  also have "\<dots> \<le> (j * q) * (1 + 4 * u)" using cube_up [OF u] x by (intro mult_left_mono)
  finally have hi: "v \<le> (j * q) * (1 + 4 * u)" using up3 by linarith
  have lo1: "(j * q) * (1 - u) \<le> j * st"
    using mult_left_mono [OF st(1) j] by (simp add: mult.assoc)
  have lo2: "(j * q) * (1 - u) * (1 - u) \<le> a"
    using a(1) mult_right_mono [OF lo1 m] by linarith
  have lo3: "(j * q) * (1 - u) * (1 - u) * (1 - u) \<le> v"
    using v(1) mult_right_mono [OF lo2 m] by linarith
  have "(j * q) * (1 - 3 * u) \<le> (j * q) * (1 - u) ^ 3"
    using cube_down [OF u] x by (intro mult_left_mono)
  also have "\<dots> = (j * q) * (1 - u) * (1 - u) * (1 - u)"
    by (simp add: power3_eq_cube mult.assoc)
  finally have lo: "(j * q) * (1 - 3 * u) \<le> v" using lo3 by linarith
  from lo hi show ?thesis by simp
qed

lemma tiny_normal: "2 powr (- 1022) \<le> (1 / 32000 :: real)"
proof -
  have "(2 :: real) powr (- 1022) \<le> 2 powr (- 15)" by (intro powr_mono) simp_all
  also have "\<dots> = 1 / 2 ^ 15" by (simp add: powr_minus inverse_eq_divide)
  also have "\<dots> \<le> 1 / 32000" by simp
  finally show ?thesis .
qed

lemma rounding_rel:
  assumes ok: "rounding_ok r" and x: "1 / 32000 \<le> x"
  shows "x * (1 - 1 / 2 ^ 53) \<le> r x \<and> r x \<le> x * (1 + 1 / 2 ^ 53)"
proof -
  have n: "2 powr (- 1022) \<le> x" using tiny_normal x by linarith
  from rounding_lower [OF ok n] rounding_upper [OF ok n] show ?thesis
    by (simp add: algebra_simps)
qed

lemma value_close:
  assumes ok: "rounding_ok r" and n: "n < 2 ^ 51" and j: "j \<le> 7998"
  shows "\<bar>r (r (real j * r (real n / 7999))) - real j * (real n / 7999)\<bar> < 1"
proof (cases "n = 0 \<or> j = 0")
  case True then show ?thesis by (auto simp add: rounding_zero [OF ok])
next
  case False
  then have n1: "1 \<le> real n" and j1: "1 \<le> real j" by simp_all
  let ?u = "1 / 2 ^ 53 :: real"
  let ?q = "real n / 7999"
  let ?st = "r ?q"
  let ?a = "r (real j * ?st)"
  let ?v = "r ?a"
  have u: "0 \<le> ?u" "?u \<le> 1 / 8" by simp_all
  have half: "1 / 2 \<le> 1 - ?u" by simp
  have q1: "1 / 7999 \<le> ?q" using n1 by (simp add: divide_right_mono)
  then have q0: "0 \<le> ?q" by simp
  have st: "?q * (1 - ?u) \<le> ?st \<and> ?st \<le> ?q * (1 + ?u)"
    using q1 by (intro rounding_rel [OF ok]) simp
  have "1 / 7999 * (1 / 2) \<le> ?q * (1 - ?u)" using q1 half by (intro mult_mono) simp_all
  then have st1: "1 / 15998 \<le> ?st" using st by simp
  then have st0: "0 \<le> ?st" by linarith
  have "1 * ?st \<le> real j * ?st" using j1 st0 by (intro mult_right_mono)
  then have "?st \<le> real j * ?st" by (simp only: mult_1)
  then have p1: "1 / 15998 \<le> real j * ?st" using st1 by (rule order_trans [rotated])
  have a: "(real j * ?st) * (1 - ?u) \<le> ?a \<and> ?a \<le> (real j * ?st) * (1 + ?u)"
    using p1 by (intro rounding_rel [OF ok]) simp
  have "1 / 15998 * (1 / 2) \<le> (real j * ?st) * (1 - ?u)" using p1 half by (intro mult_mono) simp_all
  then have a1: "1 / 32000 \<le> ?a" using a by simp
  have v: "?a * (1 - ?u) \<le> ?v \<and> ?v \<le> ?a * (1 + ?u)"
    using a1 by (intro rounding_rel [OF ok])
  have j0: "0 \<le> real j" by simp
  have b: "(real j * ?q) * (1 - 3 * ?u) \<le> ?v \<and> ?v \<le> (real j * ?q) * (1 + 4 * ?u)"
    using three_roundings [OF u j0 q0 conjunct1 [OF st] conjunct2 [OF st]
        conjunct1 [OF a] conjunct2 [OF a] conjunct1 [OF v] conjunct2 [OF v]] .
  have "real j * ?q \<le> 7998 * ?q" using j q0 by (intro mult_right_mono) simp_all
  also have "\<dots> \<le> real n" by simp
  also have "\<dots> < 2 ^ 51" using n by (metis of_nat_less_iff of_nat_numeral of_nat_power)
  finally have x: "real j * ?q < 2 ^ 51" .
  have x0: "0 \<le> real j * ?q" using q0 by simp
  have e4: "(real j * ?q) * (4 * ?u) < 1" using x by simp
  have e3: "(real j * ?q) * (3 * ?u) < 1" using x x0 by simp
  have hi: "?v - real j * ?q < 1" using b e4 by (simp add: algebra_simps)
  have lo: "real j * ?q - ?v < 1" using b e3 by (simp add: algebra_simps)
  from hi lo show ?thesis by linarith
qed

lemma floor_close: fixes v x :: real assumes "\<bar>v - x\<bar> < 1" shows "\<bar>\<lfloor>v\<rfloor> - \<lfloor>x\<rfloor>\<bar> \<le> 1"
proof -
  have a: "v \<le> x + 1" and b: "x \<le> v + 1" using assms by linarith+
  have "\<lfloor>v\<rfloor> \<le> \<lfloor>x + 1\<rfloor>" using a by (rule floor_mono)
  moreover have "\<lfloor>x\<rfloor> \<le> \<lfloor>v + 1\<rfloor>" using b by (rule floor_mono)
  ultimately show ?thesis by simp
qed

lemma index_at_close:
  assumes ok: "rounding_ok r" and n: "n < 2 ^ 51" and j: "j < 8000"
  shows "\<bar>index_at r n j - \<lfloor>real j * (real n / 7999)\<rfloor>\<bar> \<le> 1"
proof (cases "j < 7999")
  case True
  then have "j \<le> 7998" by simp
  from floor_close [OF value_close [OF ok n this]] True show ?thesis by (simp add: index_at_def)
next
  case False
  with j have "j = 7999" by simp
  then show ?thesis by (simp add: index_at_def)
qed

subsection \<open>The subsample never leaves the array\<close>

lemma fit_idx_index_at:
  assumes ok: "rounding_ok r" and A: "rounded_by r A" and n: "n < 2 ^ 53"
    and len: "length theta = Suc n"
  shows "fit_idx A theta = map (index_at r n) [0..<8000]"
proof -
  have "real_of_int (int (length theta) - 1) = real n" using len by simp
  then show ?thesis using linspace_indices [OF ok A n] by (simp only: fit_idx_def)
qed

lemma np_take_in_range:
  assumes "\<forall>i \<in> set idx. 0 \<le> i \<and> i < int (length xs)"
  shows "np_take xs idx = Inr (map (\<lambda>i. xs ! nat i) idx)"
proof -
  have all: "list_all (\<lambda>i. - int (length xs) \<le> i \<and> i < int (length xs)) idx"
    using assms by (auto simp add: list_all_iff)
  have "map (\<lambda>i. xs ! nat (if i < 0 then int (length xs) + i else i)) idx = map (\<lambda>i. xs ! nat i) idx"
    using assms by (intro map_cong) auto
  then show ?thesis using all by (simp add: np_take_def Let_def)
qed

lemma fit_idx_in_range:
  assumes ok: "rounding_ok r" and A: "rounded_by r A" and n: "n < 2 ^ 53"
    and len: "length theta = Suc n"
  shows "\<forall>i \<in> set (fit_idx A theta). 0 \<le> i \<and> i < int (length theta)"
proof
  fix i assume "i \<in> set (fit_idx A theta)"
  then obtain j where "i = index_at r n j"
    unfolding fit_idx_index_at [OF ok A n len] by auto
  then show "0 \<le> i \<and> i < int (length theta)"
    using index_at_range [OF ok n, of j] len by simp
qed

subsection \<open>The radial error over all samples\<close>

lemma map2_maps: "map2 f (map g xs) (map h xs) = map (\<lambda>p. f (g p) (h p)) xs"
  by (induction xs) simp_all

lemma foldr_pf_add_Fin: "foldr pf_add (map (\<lambda>p. Fin (w p)) xs) (Fin 0) = Fin (sum_list (map w xs))"
  by (induction xs) (simp_all add: pf_add_def)

lemma foldr_pf_add_NaN: "xs \<noteq> [] \<Longrightarrow> foldr pf_add (map (\<lambda>p. NaN) xs) (Fin 0) = NaN"
  by (cases xs) (simp_all add: pf_add_def)

lemma residuals_Fin:
  assumes "m \<noteq> 0"
  shows "map2 (\<lambda>ro rf. pf_sq (pf_sub (Fin ro) rf)) (polar_r traj)
           (map (\<lambda>t. rhodonea t k m phi a) (polar_theta traj))
         = map (\<lambda>p. Fin (sq_residual k m phi a p)) traj"
proof -
  have "map2 (\<lambda>ro rf. pf_sq (pf_sub (Fin ro) rf)) (polar_r traj)
           (map (\<lambda>t. rhodonea t k m phi a) (polar_theta traj))
      = map (\<lambda>p. pf_sq (pf_sub (Fin ((\<lambda>(x, y, z). sqrt (x\<^sup>2 + y\<^sup>2)) p))
                 (rhodonea ((\<lambda>(x, y, z). np_arctan2 y x) p) k m phi a))) traj"
    by (simp only: polar_r_def polar_theta_def map_map o_def map2_maps)
  also have "\<dots> = map (\<lambda>p. Fin (sq_residual k m phi a p)) traj"
    using assms
    by (intro map_cong) (auto simp add: sq_residual_def rhodonea_def pf_sq_def pf_sub_def)
  finally show ?thesis .
qed

lemma residuals_NaN:
  shows "map2 (\<lambda>ro rf. pf_sq (pf_sub (Fin ro) rf)) (polar_r traj)
           (map (\<lambda>t. rhodonea t k 0 phi a) (polar_theta traj))
         = map (\<lambda>p. NaN) traj"
proof -
  have "map2 (\<lambda>ro rf. pf_sq (pf_sub (Fin ro) rf)) (polar_r traj)
           (map (\<lambda>t. rhodonea t k 0 phi a) (polar_theta traj))
      = map (\<lambda>p. pf_sq (pf_sub (Fin ((\<lambda>(x, y, z). sqrt (x\<^sup>2 + y\<^sup>2)) p))
                 (rhodonea ((\<lambda>(x, y, z). np_arctan2 y x) p) k 0 phi a))) traj"
    by (simp only: polar_r_def polar_theta_def map_map o_def map2_maps)
  also have "\<dots> = map (\<lambda>p. NaN) traj"
    by (intro map_cong) (auto simp add: rhodonea_def pf_sq_def pf_sub_def)
  finally show ?thesis .
qed

lemma sq_residual_nonneg: "0 \<le> sum_list (map (sq_residual k m phi a) traj)"
  by (intro sum_list_nonneg) (auto simp add: sq_residual_def)

text \<open>The error of the script is the closed form over every sample of the trajectory.\<close>

lemma E_flower_all:
  assumes ne: "traj \<noteq> []"
  shows "pf_sqrt (np_mean (map2 (\<lambda>ro rf. pf_sq (pf_sub (Fin ro) rf)) (polar_r traj)
           (map (\<lambda>t. rhodonea t k m phi a) (polar_theta traj))))
         = rms_all (k, m, phi, a) traj"
proof (cases "m = 0")
  case True
  have "np_mean (map (\<lambda>p. NaN) traj) = NaN"
    using ne by (simp add: np_mean_def foldr_pf_add_NaN)
  then show ?thesis using True by (simp add: residuals_NaN rms_all_def)
next
  case False
  have "np_mean (map (\<lambda>p. Fin (sq_residual k m phi a p)) traj)
      = Fin (sum_list (map (sq_residual k m phi a) traj) / real (length traj))"
    using ne by (simp add: np_mean_def foldr_pf_add_Fin)
  moreover have "0 \<le> sum_list (map (sq_residual k m phi a) traj) / real (length traj)"
    using sq_residual_nonneg [of k m phi a traj] by simp
  ultimately show ?thesis using False by (simp add: residuals_Fin rms_all_def)
qed

lemma fit_rhodonea_unfolded:
  assumes ne: "traj \<noteq> []"
    and rng: "\<forall>i \<in> set (fit_idx A (polar_theta traj)). 0 \<le> i \<and> i < int (length traj)"
  shows "fit_rhodonea A curve_fit traj =
     (case curve_fit rhodonea
             (map (\<lambda>i. polar_theta traj ! nat i) (fit_idx A (polar_theta traj)))
             (map (\<lambda>i. polar_r traj ! nat i) (fit_idx A (polar_theta traj))) (2, 5, 0, 1) of
        Inl e \<Rightarrow> Inl e
      | Inr p \<Rightarrow> Inr (p, rms_all p traj))"
proof -
  have lt: "length (polar_theta traj) = length traj" and lr: "length (polar_r traj) = length traj"
    by (simp_all add: polar_theta_def polar_r_def)
  have t1: "np_take (polar_theta traj) (fit_idx A (polar_theta traj))
      = Inr (map (\<lambda>i. polar_theta traj ! nat i) (fit_idx A (polar_theta traj)))"
    using rng by (intro np_take_in_range) (simp add: lt)
  have t2: "np_take (polar_r traj) (fit_idx A (polar_theta traj))
      = Inr (map (\<lambda>i. polar_r traj ! nat i) (fit_idx A (polar_theta traj)))"
    using rng by (intro np_take_in_range) (simp add: lr)
  show ?thesis
    unfolding fit_rhodonea_def Let_def t1 t2
    by (simp add: E_flower_all [OF ne] split: sum.splits prod.splits)
qed

subsection \<open>The fit of the script\<close>

lemma fit_idx_props:
  assumes ok: "rounding_ok r" and A: "rounded_by r A"
    and ne: "traj \<noteq> []" and len: "length traj \<le> 2 ^ 51"
  shows "length (fit_idx A (polar_theta traj)) = 8000"
    and "\<forall>j<8000. fit_idx A (polar_theta traj) ! j = index_at r (length traj - 1) j"
    and "\<forall>i \<in> set (fit_idx A (polar_theta traj)). 0 \<le> i \<and> i < int (length traj)"
proof -
  let ?n = "length traj - 1"
  have l: "length (polar_theta traj) = Suc ?n" using ne by (simp add: polar_theta_def)
  have "(2 :: nat) ^ 51 < 2 ^ 53" by simp
  then have n: "?n < 2 ^ 53" using len by linarith
  note eq = fit_idx_index_at [OF ok A n l]
  show "length (fit_idx A (polar_theta traj)) = 8000" by (simp add: eq)
  show "\<forall>j<8000. fit_idx A (polar_theta traj) ! j = index_at r ?n j"
  proof (intro allI impI)
    fix j :: nat assume j: "j < 8000"
    then have "map (index_at r ?n) [0..<8000] ! j = index_at r ?n ([0..<8000] ! j)"
      by (intro nth_map) simp
    also have "[0..<8000] ! j = j" using j by (simp only: nth_upt add_0 diff_zero)
    finally show "fit_idx A (polar_theta traj) ! j = index_at r ?n j" by (simp only: eq)
  qed
  have "length (polar_theta traj) = length traj" by (simp add: polar_theta_def)
  then show "\<forall>i \<in> set (fit_idx A (polar_theta traj)). 0 \<le> i \<and> i < int (length traj)"
    using fit_idx_in_range [OF ok A n l] by simp
qed

lemma fit_rounded:
  assumes ok: "rounding_ok r" and A: "rounded_by r A"
    and ne: "traj \<noteq> []" and len: "length traj \<le> 2 ^ 51"
  shows "length (fit_idx A (polar_theta traj)) = 8000
    \<and> (\<forall>j<8000. 0 \<le> fit_idx A (polar_theta traj) ! j
                 \<and> fit_idx A (polar_theta traj) ! j < int (length traj))
    \<and> (\<forall>i j. i \<le> j \<and> j < 8000 \<longrightarrow>
          fit_idx A (polar_theta traj) ! i \<le> fit_idx A (polar_theta traj) ! j)
    \<and> fit_idx A (polar_theta traj) ! 0 = 0
    \<and> fit_idx A (polar_theta traj) ! 7999 = int (length traj) - 1
    \<and> (\<forall>j<8000. \<bar>fit_idx A (polar_theta traj) ! j
                   - \<lfloor>real j * real (length traj - 1) / 7999\<rfloor>\<bar> \<le> 1)
    \<and> fit_rhodonea A curve_fit traj =
        (case curve_fit rhodonea
                (map (\<lambda>i. polar_theta traj ! nat i) (fit_idx A (polar_theta traj)))
                (map (\<lambda>i. polar_r traj ! nat i) (fit_idx A (polar_theta traj))) (2, 5, 0, 1) of
           Inl e \<Rightarrow> Inl e
         | Inr p \<Rightarrow> Inr (p, rms_all p traj))"
proof -
  let ?n = "length traj - 1"
  let ?idx = "fit_idx A (polar_theta traj)"
  note P = fit_idx_props [OF ok A ne len]
  have "(2 :: nat) ^ 51 < 2 ^ 53" by simp
  then have n53: "?n < 2 ^ 53" using len by linarith
  have n51: "?n < 2 ^ 51" using len ne by (cases traj) simp_all
  have at: "?idx ! j = index_at r ?n j" if "j < 8000" for j using P(2) that by blast
  have c1: "length ?idx = 8000" by (rule P(1))
  have c2: "\<forall>j<8000. 0 \<le> ?idx ! j \<and> ?idx ! j < int (length traj)"
  proof (intro allI impI)
    fix j :: nat assume "j < 8000"
    then have "?idx ! j \<in> set ?idx" by (simp only: c1 nth_mem)
    then show "0 \<le> ?idx ! j \<and> ?idx ! j < int (length traj)" using P(3) by blast
  qed
  have c3: "\<forall>i j. i \<le> j \<and> j < 8000 \<longrightarrow> ?idx ! i \<le> ?idx ! j"
  proof (intro allI impI)
    fix i j :: nat assume ij: "i \<le> j \<and> j < 8000"
    then have "i < 8000" by simp
    then show "?idx ! i \<le> ?idx ! j"
      using ij index_at_mono [OF ok n53, of i j] by (simp add: at)
  qed
  have c4: "?idx ! 0 = 0" by (simp add: at index_at_first [OF ok])
  have "int ?n = int (length traj) - 1" using ne by (cases traj) simp_all
  then have c5: "?idx ! 7999 = int (length traj) - 1" by (simp add: at index_at_last)
  have c6: "\<forall>j<8000. \<bar>?idx ! j - \<lfloor>real j * real ?n / 7999\<rfloor>\<bar> \<le> 1"
  proof (intro allI impI)
    fix j :: nat assume j: "j < 8000"
    from index_at_close [OF ok n51 j] show "\<bar>?idx ! j - \<lfloor>real j * real ?n / 7999\<rfloor>\<bar> \<le> 1"
      by (simp add: at [OF j])
  qed
  note c7 = fit_rhodonea_unfolded [OF ne P(3), of curve_fit]
  from c1 c2 c3 c4 c5 c6 c7 show ?thesis by (intro conjI)
qed

lemma fit_idx_exact:
  assumes ne: "traj \<noteq> []" and len: "length traj \<le> 2 ^ 51"
  shows "\<forall>j<8000. fit_idx exact_arith (polar_theta traj) ! j = \<lfloor>real j * real (length traj - 1) / 7999\<rfloor>"
proof (intro allI impI)
  fix j :: nat assume j: "j < 8000"
  from fit_idx_props(2) [OF rounding_ok_id rounded_by_exact ne len] j
  have "fit_idx exact_arith (polar_theta traj) ! j = index_at (\<lambda>x. x) (length traj - 1) j" by blast
  then show "fit_idx exact_arith (polar_theta traj) ! j = \<lfloor>real j * real (length traj - 1) / 7999\<rfloor>"
    by (simp only: index_at_exact [OF j])
qed

text \<open>
  Claim C9. The fit of the script is taken over an evenly spaced, deterministic index subset
  and the reported error over the full sample set. For a non-empty trajectory of at most
  \<open>2 ^ 51\<close> samples, in exact arithmetic and in double arithmetic alike: the subset has 8000
  indices, each within the array (the subsample never raises), nondecreasing, from the first
  sample \<open>0\<close> to the last sample \<open>len - 1\<close>, and each within one of the evenly spaced position
  \<open>\<lfloor>j (len - 1) / 7999\<rfloor>\<close> (in exact arithmetic it is that position). The optimiser
  \<^verbatim>\<open>curve_fit\<close> is called once, on the angles and radii at these indices and with the
  initial guess \<open>(2, 5, 0, 1)\<close>; when it raises, the script raises; when it returns the
  parameters \<open>p\<close>, the reported error is the root mean square residual of \<open>p\<close> over
  every sample of the trajectory, whatever the subset was.
\<close>

theorem fit_subset_even_error_full:
  fixes traj :: "vec3 list"
  assumes ne: "traj \<noteq> []" and len: "length traj \<le> 2 ^ 51"
    and A: "A = exact_arith \<or> A = ieee_arith libm_sin libm_log"
  shows "length (fit_idx A (polar_theta traj)) = 8000
    \<and> (\<forall>j<8000. 0 \<le> fit_idx A (polar_theta traj) ! j
                 \<and> fit_idx A (polar_theta traj) ! j < int (length traj))
    \<and> (\<forall>i j. i \<le> j \<and> j < 8000 \<longrightarrow>
          fit_idx A (polar_theta traj) ! i \<le> fit_idx A (polar_theta traj) ! j)
    \<and> fit_idx A (polar_theta traj) ! 0 = 0
    \<and> fit_idx A (polar_theta traj) ! 7999 = int (length traj) - 1
    \<and> (\<forall>j<8000. \<bar>fit_idx A (polar_theta traj) ! j
                   - \<lfloor>real j * real (length traj - 1) / 7999\<rfloor>\<bar> \<le> 1)
    \<and> (A = exact_arith \<longrightarrow>
          (\<forall>j<8000. fit_idx A (polar_theta traj) ! j = \<lfloor>real j * real (length traj - 1) / 7999\<rfloor>))
    \<and> fit_rhodonea A curve_fit traj =
        (case curve_fit rhodonea
                (map (\<lambda>i. polar_theta traj ! nat i) (fit_idx A (polar_theta traj)))
                (map (\<lambda>i. polar_r traj ! nat i) (fit_idx A (polar_theta traj))) (2, 5, 0, 1) of
           Inl e \<Rightarrow> Inl e
         | Inr p \<Rightarrow> Inr (p, rms_all p traj))"
proof -
  obtain r where ok: "rounding_ok r" and by_r: "rounded_by r A"
    using A rounding_ok_id rounded_by_exact rounding_ok_double rounded_by_ieee by blast
  note R = fit_rounded [OF ok by_r ne len, of curve_fit]
  have ex: "A = exact_arith \<longrightarrow>
      (\<forall>j<8000. fit_idx A (polar_theta traj) ! j = \<lfloor>real j * real (length traj - 1) / 7999\<rfloor>)"
    using fit_idx_exact [OF ne len] by blast
  from R ex show ?thesis by blast
qed

lemma two_samples_error:
  "rms_all (2, 5, 0, 1) [(1, 0, 0), (0, 1, 0)] = Fin (sqrt ((1 - cos (pi / 5))\<^sup>2 / 2))"
  by (simp add: rms_all_def sq_residual_def np_arctan2_def)

theorem fit_subset_even_error_full_witness:
  "[(1, 0, 0), (0, 1, 0)] \<noteq> ([] :: vec3 list)
   \<and> length [(1, 0, 0), (0, 1, 0) :: vec3] \<le> 2 ^ 51
   \<and> fit_idx (ieee_arith sin ln) (polar_theta [(1, 0, 0), (0, 1, 0)]) ! 0 = 0
   \<and> fit_idx (ieee_arith sin ln) (polar_theta [(1, 0, 0), (0, 1, 0)]) ! 7999 = 1
   \<and> fit_rhodonea (ieee_arith sin ln) (\<lambda>f xs ys p0. Inr p0) [(1, 0, 0), (0, 1, 0)]
       = Inr ((2, 5, 0, 1), Fin (sqrt ((1 - cos (pi / 5))\<^sup>2 / 2)))"
proof -
  have h1: "[(1, 0, 0), (0, 1, 0)] \<noteq> ([] :: vec3 list)" by simp
  have h2: "length [(1, 0, 0), (0, 1, 0) :: vec3] \<le> 2 ^ 51" by simp
  have h3: "ieee_arith sin ln = exact_arith \<or> ieee_arith sin ln = ieee_arith sin ln" by simp
  note T = fit_subset_even_error_full [OF h1 h2 h3, of "\<lambda>f xs ys p0. Inr p0"]
  have a: "fit_idx (ieee_arith sin ln) (polar_theta [(1, 0, 0), (0, 1, 0)]) ! 0 = 0"
    using T by blast
  have "fit_idx (ieee_arith sin ln) (polar_theta [(1, 0, 0), (0, 1, 0)]) ! 7999
      = int (length [(1, 0, 0), (0, 1, 0) :: vec3]) - 1" using T by blast
  then have b: "fit_idx (ieee_arith sin ln) (polar_theta [(1, 0, 0), (0, 1, 0)]) ! 7999 = 1"
    by simp
  have "fit_rhodonea (ieee_arith sin ln) (\<lambda>f xs ys p0. Inr p0) [(1, 0, 0), (0, 1, 0)]
      = Inr ((2, 5, 0, 1), rms_all (2, 5, 0, 1) [(1, 0, 0), (0, 1, 0)])"
    using T by simp
  then have c: "fit_rhodonea (ieee_arith sin ln) (\<lambda>f xs ys p0. Inr p0) [(1, 0, 0), (0, 1, 0)]
      = Inr ((2, 5, 0, 1), Fin (sqrt ((1 - cos (pi / 5))\<^sup>2 / 2)))"
    by (simp only: two_samples_error)
  from h1 h2 a b c show ?thesis by (intro conjI)
qed

end
